theory Spec2Isabelle
  imports Main "HOL-Library.Sublist"
begin

section \<open>Package app: the lifecycle orchestrator (app.go)\<close>

text \<open>
  The orchestrator of \<^verbatim>\<open>app.go\<close> is sequential code that calls external collaborators:
  the subsystem managers, the errgroup of the supervised tasks, the root context, the
  logger and the caller-supplied hooks. None of them is part of the two source files, so
  they are parameters of the model:
  \<^item> the state of everything outside the orchestrator is a value of a type variable
    \<open>'w\<close> (the world);
  \<^item> a call that returns a Go \<^verbatim>\<open>error\<close> is a function \<open>'w \<Rightarrow> error option \<times> 'w\<close>:
    the error (\<open>None\<close> is \<^verbatim>\<open>nil\<close>) and the world after the call;
  \<^item> every call the orchestrator makes is appended to a trace, with the error it
    returned, so that call order is observable.
  Strings of this package are byte strings, which is what \<^typ>\<open>string\<close> is; an error is
  identified with its message (\<^verbatim>\<open>err.Error()\<close>).

  Two assumptions come with the parameters. A collaborator or a hook changes the world
  only: it does not assign to the fields of \<^verbatim>\<open>App\<close>. And every call returns: a
  collaborator that blocks for ever (\<^verbatim>\<open>Wait\<close> on tasks that never end) has no value in
  this model.
\<close>

type_synonym error = string

type_synonym 'w DXAppEvent = "('w \<Rightarrow> error option \<times> 'w) option"

text \<open>
  The struct \<^verbatim>\<open>DXApp\<close>. A hook field is \<open>None\<close> when the Go field is \<^verbatim>\<open>nil\<close>. The fields
  \<^verbatim>\<open>Args\<close>, \<^verbatim>\<open>RuntimeErrorGroup\<close> and \<^verbatim>\<open>RuntimeErrorGroupContext\<close> are left out: the
  first is never read by the code, the other two are handles into the world.
\<close>

record 'w DXApp =
  nameId :: string
  Title :: string
  Description :: string
  Version :: string
  IsLoop :: bool
  IsRedisExist :: bool
  IsStorageExist :: bool
  IsAPIExist :: bool
  IsTaskExist :: bool
  DebugKey :: string
  IsDebug :: bool
  OnDefine :: "'w DXAppEvent"
  OnDefineConfiguration :: "'w DXAppEvent"
  OnDefineAPI :: "'w DXAppEvent"
  OnExecute :: "'w DXAppEvent"
  OnStartStorageReady :: "'w DXAppEvent"
  OnStopping :: "'w DXAppEvent"

text \<open>The methods of the external collaborators that return an error.\<close>

datatype extcall =
    configurations_Load
  | redis_LoadFromConfiguration string
  | databases_LoadFromConfiguration string
  | redis_ConnectAllAtStart
  | databases_ConnectAllAtStart string
  | tables_ConnectAll
  | api_StartAll
  | tasks_StartAll
  | tasks_StopAll
  | api_StopAll
  | redis_DisconnectAll
  | databases_DisconnectAll
  | errgroup_Wait

datatype hook =
    H_OnDefine
  | H_OnDefineConfiguration
  | H_OnDefineAPI
  | H_OnExecute
  | H_OnStartStorageReady
  | H_OnStopping

datatype event =
    LogInfo string
  | LogError string
  | Call extcall "error option"
  | Hook hook "error option"
  | WithContext
  | RootContextCancel

text \<open>
  The collaborators: \<open>call\<close> runs a method, \<open>Configurations\<close> is the key set of the map
  \<^verbatim>\<open>configurations.Manager.Configurations\<close> in a given world, \<open>errgroup_WithContext\<close> and
  \<open>core_RootContextCancel\<close> return no error.
\<close>

record 'w env =
  call :: "extcall \<Rightarrow> 'w \<Rightarrow> error option \<times> 'w"
  Configurations :: "'w \<Rightarrow> string set"
  errgroup_WithContext :: "'w \<Rightarrow> 'w"
  core_RootContextCancel :: "'w \<Rightarrow> 'w"

record 'w state =
  app :: "'w DXApp"
  world :: "'w"
  trace :: "event list"

type_synonym 'w step = "'w state \<Rightarrow> error option \<times> 'w state"

definition log_Info :: "string \<Rightarrow> 'w state \<Rightarrow> 'w state" where
  "log_Info msg s = s\<lparr>trace := trace s @ [LogInfo msg]\<rparr>"

definition log_Error :: "string \<Rightarrow> 'w state \<Rightarrow> 'w state" where
  "log_Error msg s = s\<lparr>trace := trace s @ [LogError msg]\<rparr>"

definition invoke :: "'w env \<Rightarrow> extcall \<Rightarrow> 'w step" where
  "invoke E c s =
     (case call E c (world s) of
        (r, w') \<Rightarrow> (r, s\<lparr>world := w', trace := trace s @ [Call c r]\<rparr>))"

text \<open>\<^verbatim>\<open>if a.OnX != nil { err = a.OnX() }\<close>: nothing happens when the hook is not set.\<close>

definition run_hook :: "hook \<Rightarrow> ('w DXApp \<Rightarrow> 'w DXAppEvent) \<Rightarrow> 'w step" where
  "run_hook h field s =
     (case field (app s) of
        None \<Rightarrow> (None, s)
      | Some f \<Rightarrow>
          (case f (world s) of
             (r, w') \<Rightarrow> (r, s\<lparr>world := w', trace := trace s @ [Hook h r]\<rparr>)))"

text \<open>A statement that cannot fail, as a step.\<close>

definition pure_step :: "('w state \<Rightarrow> 'w state) \<Rightarrow> 'w step" where
  "pure_step f s = (None, f s)"

text \<open>\<^verbatim>\<open>if flag { ... }\<close>\<close>

definition guarded :: "('w DXApp \<Rightarrow> bool) \<Rightarrow> 'w step \<Rightarrow> 'w step" where
  "guarded flag f s = (if flag (app s) then f s else (None, s))"

text \<open>
  Statements in sequence, each followed by \<^verbatim>\<open>if err != nil { return err }\<close>: the first
  error ends the sequence.
\<close>

fun seq :: "'w step list \<Rightarrow> 'w step" where
  "seq [] s = (None, s)"
| "seq (f # fs) s =
     (case f s of
        (None, s') \<Rightarrow> seq fs s'
      | (Some e, s') \<Rightarrow> (Some e, s'))"

text \<open>\<^verbatim>\<open>_, a.IsXExist = configurations.Manager.Configurations[key]\<close>\<close>

definition lookup_section :: "'w env \<Rightarrow> string \<Rightarrow> 'w state \<Rightarrow> bool" where
  "lookup_section E key s = (key \<in> Configurations E (world s))"

definition start :: "'w env \<Rightarrow> 'w step" where
  "start E =
     seq
      [ pure_step (\<lambda>s. log_Info (Title (app s) @ '' '' @ Version (app s) @ '' '' @ Description (app s)) s),
        invoke E configurations_Load,
        pure_step (\<lambda>s. s\<lparr>app := (app s)\<lparr>IsRedisExist := lookup_section E ''redis'' s\<rparr>\<rparr>),
        guarded IsRedisExist (invoke E (redis_LoadFromConfiguration ''redis'')),
        pure_step (\<lambda>s. s\<lparr>app := (app s)\<lparr>IsStorageExist := lookup_section E ''storage'' s\<rparr>\<rparr>),
        guarded IsStorageExist (invoke E (databases_LoadFromConfiguration ''storage'')),
        pure_step (\<lambda>s. s\<lparr>app := (app s)\<lparr>IsAPIExist := lookup_section E ''api'' s\<rparr>\<rparr>),
        guarded IsRedisExist (invoke E redis_ConnectAllAtStart),
        guarded IsStorageExist
          (seq
            [ invoke E (databases_ConnectAllAtStart ''storage''),
              invoke E tables_ConnectAll,
              run_hook H_OnStartStorageReady OnStartStorageReady ]),
        guarded IsAPIExist (invoke E api_StartAll),
        pure_step (\<lambda>s. s\<lparr>app := (app s)\<lparr>IsTaskExist := lookup_section E ''tasks'' s\<rparr>\<rparr>),
        guarded IsTaskExist (invoke E tasks_StartAll) ]"

text \<open>
  \<^verbatim>\<open>Stop\<close> calls \<^verbatim>\<open>a.OnStopping()\<close> as a statement: the hook's error is dropped.
\<close>

definition Stop :: "'w env \<Rightarrow> 'w step" where
  "Stop E s =
     (let s1 = log_Info ''Stopping'' s;
          s2 = snd (run_hook H_OnStopping OnStopping s1)
      in seq
          [ guarded IsTaskExist (invoke E tasks_StopAll),
            guarded IsAPIExist (invoke E api_StopAll),
            guarded IsRedisExist (invoke E redis_DisconnectAll),
            guarded IsStorageExist (invoke E databases_DisconnectAll),
            pure_step (log_Info ''Stopped'') ] s2)"

text \<open>
  The deferred closure of \<^verbatim>\<open>execute\<close>: it runs \<^verbatim>\<open>Stop\<close>, logs its error and returns
  nothing.
\<close>

definition deferred_Stop :: "'w env \<Rightarrow> 'w state \<Rightarrow> 'w state" where
  "deferred_Stop E s =
     (case Stop E s of
        (None, s') \<Rightarrow> s'
      | (Some err2, s') \<Rightarrow> log_Info (''Error in Stopping: ('' @ err2 @ '')'') s')"

text \<open>
  The part of \<^verbatim>\<open>execute\<close> after the deferred \<^verbatim>\<open>Stop\<close> is registered (lines 211 to 229).
\<close>

definition execute_body :: "'w env \<Rightarrow> 'w step" where
  "execute_body E s =
     (let s1 = log_Info ''Starting'' s in
      case run_hook H_OnExecute OnExecute s1 of
        (Some e, s2) \<Rightarrow> (Some e, log_Info (''onExecute error ('' @ e @ '')'') s2)
      | (None, s2) \<Rightarrow>
          if IsLoop (app s2) then
            (let s3 = log_Info ''Waiting...'' s2 in
             case invoke E errgroup_Wait s3 of
               (Some e, s4) \<Rightarrow> (Some e, log_Info (''Exit reason: '' @ e) s4)
             | (None, s4) \<Rightarrow> (None, s4))
          else (None, s2))"

text \<open>
  \<^verbatim>\<open>execute\<close>. Deferred calls run when the function returns, last registered first: the
  deferred \<^verbatim>\<open>Stop\<close> (registered only when \<^verbatim>\<open>start\<close> succeeded and \<^verbatim>\<open>IsLoop\<close> holds), then
  \<^verbatim>\<open>core.RootContextCancel\<close>. Neither changes the named result \<^verbatim>\<open>err\<close>.
\<close>

definition root_cancel :: "'w env \<Rightarrow> 'w state \<Rightarrow> 'w state" where
  "root_cancel E s =
     s\<lparr>world := core_RootContextCancel E (world s), trace := trace s @ [RootContextCancel]\<rparr>"

definition with_context :: "'w env \<Rightarrow> 'w state \<Rightarrow> 'w state" where
  "with_context E s =
     s\<lparr>world := errgroup_WithContext E (world s), trace := trace s @ [WithContext]\<rparr>"

definition execute :: "'w env \<Rightarrow> 'w step" where
  "execute E s =
     (case start E (with_context E s) of
        (Some e, s1) \<Rightarrow> (Some e, root_cancel E s1)
      | (None, s1) \<Rightarrow>
          if IsLoop (app s1) then
            (case execute_body E s1 of
               (r, s2) \<Rightarrow> (r, root_cancel E (deferred_Stop E s2)))
          else
            (case execute_body E s1 of
               (r, s2) \<Rightarrow> (r, root_cancel E s2)))"

text \<open>\<^verbatim>\<open>err := f(); if err != nil { log.Log.Error(err.Error()); return err }\<close>\<close>

definition logged :: "'w step \<Rightarrow> 'w step" where
  "logged f s =
     (case f s of
        (Some e, s') \<Rightarrow> (Some e, log_Error e s')
      | (None, s') \<Rightarrow> (None, s'))"

definition Run :: "'w env \<Rightarrow> 'w step" where
  "Run E =
     seq
      [ logged (run_hook H_OnDefine OnDefine),
        logged (run_hook H_OnDefineConfiguration OnDefineConfiguration),
        logged (run_hook H_OnDefineAPI OnDefineAPI),
        logged (execute E) ]"

subsection \<open>The package-level variable, \<^verbatim>\<open>Set\<close> and \<^verbatim>\<open>GetNameId\<close>\<close>

text \<open>
  The package variables that \<^verbatim>\<open>Set\<close> writes: \<^verbatim>\<open>App\<close>, \<^verbatim>\<open>v3.AppNameId\<close> and
  \<^verbatim>\<open>log.Log.Prefix\<close>. The process environment read by \<^verbatim>\<open>os.Getenv\<close> is a parameter
  (\<^verbatim>\<open>os.Getenv\<close> returns the empty string for a variable that is not set).
\<close>

record 'w globals =
  App :: "'w DXApp"
  v3_AppNameId :: string
  log_Prefix :: string

definition Set ::
  "(string \<Rightarrow> string) \<Rightarrow> string \<Rightarrow> string \<Rightarrow> string \<Rightarrow> bool \<Rightarrow> string \<Rightarrow> 'w globals \<Rightarrow> 'w globals" where
  "Set os_Getenv nameId' title description isLoop debugKey g =
     g\<lparr> v3_AppNameId := nameId',
        App := (App g)
          \<lparr> nameId := nameId',
            Title := title,
            Description := description,
            IsLoop := isLoop,
            DebugKey := debugKey,
            IsDebug := (os_Getenv ''DEBUG_KEY'' = debugKey) \<rparr>,
        log_Prefix := nameId' \<rparr>"

definition GetNameId :: "'w globals \<Rightarrow> string" where
  "GetNameId g = nameId (App g)"

text \<open>\<^verbatim>\<open>init\<close>: every field of \<^verbatim>\<open>App\<close> has its zero value.\<close>

definition init_App :: "'w DXApp" where
  "init_App =
     \<lparr> nameId = '''', Title = '''', Description = '''', Version = '''', IsLoop = False,
       IsRedisExist = False, IsStorageExist = False, IsAPIExist = False, IsTaskExist = False,
       DebugKey = '''', IsDebug = False,
       OnDefine = None, OnDefineConfiguration = None, OnDefineAPI = None,
       OnExecute = None, OnStartStorageReady = None, OnStopping = None \<rparr>"

section \<open>Package utils: SQL identifiers and named arguments\<close>

text \<open>
  \<^verbatim>\<open>FormatIdentifier\<close> and \<^verbatim>\<open>DeformatIdentifier\<close> change the case of a string with Go's
  \<^verbatim>\<open>strings.ToLower\<close> and \<^verbatim>\<open>strings.ToUpper\<close>, which map every Unicode code point of the
  string with \<^verbatim>\<open>unicode.ToLower\<close> and \<^verbatim>\<open>unicode.ToUpper\<close>. A string of this package is
  therefore the list of its code points (Go's \<^verbatim>\<open>rune\<close>, a signed 32-bit integer holding a
  value up to \<^verbatim>\<open>0x10FFFF\<close>); strings that are not valid UTF-8 are outside the model.
  \<open>lit\<close> turns an ASCII literal of the source into such a string.
\<close>

type_synonym rune = int

type_synonym ustring = "rune list"

definition lit :: "string \<Rightarrow> ustring" where
  "lit s = map (\<lambda>c. int (of_char c)) s"

definition dquote :: rune where
  "dquote = 0x22"

text \<open>
  \<^verbatim>\<open>unicode.CaseRange\<close>: the code points \<^verbatim>\<open>Lo\<close> to \<^verbatim>\<open>Hi\<close> and the distance to their
  upper case and lower case form (the title case delta is not used here). Go marks a range
  of alternating upper and lower case letters with the delta \<^verbatim>\<open>UpperLower\<close>.
\<close>

datatype delta = Shift int | UpperLower

record CaseRange =
  Lo :: rune
  Hi :: rune
  DeltaUpper :: delta
  DeltaLower :: delta

datatype letter_case = UpperCase | LowerCase

text \<open>
  \<^verbatim>\<open>unicode.To\<close> searches the table \<^verbatim>\<open>unicode.CaseRanges\<close> for the range that holds the
  code point (a binary search in Go; the ranges are disjoint and sorted, so the first
  match is the match) and applies its delta; a code point in no range is unchanged. The
  table is data of Go's standard library, so it is a parameter.
\<close>

fun unicode_To :: "letter_case \<Rightarrow> rune \<Rightarrow> CaseRange list \<Rightarrow> rune" where
  "unicode_To c r [] = r"
| "unicode_To c r (cr # crs) =
     (if Lo cr \<le> r \<and> r \<le> Hi cr then
        (case (case c of UpperCase \<Rightarrow> DeltaUpper cr | LowerCase \<Rightarrow> DeltaLower cr) of
           UpperLower \<Rightarrow>
             Lo cr + (2 * ((r - Lo cr) div 2) + (case c of UpperCase \<Rightarrow> 0 | LowerCase \<Rightarrow> 1))
         | Shift d \<Rightarrow> r + d)
      else unicode_To c r crs)"

text \<open>
  \<^verbatim>\<open>unicode.ToUpper\<close> and \<^verbatim>\<open>unicode.ToLower\<close> answer for ASCII (\<^verbatim>\<open>r <= MaxASCII\<close>) without
  the table.
\<close>

definition MaxASCII :: rune where
  "MaxASCII = 0x7F"

definition unicode_ToUpper :: "CaseRange list \<Rightarrow> rune \<Rightarrow> rune" where
  "unicode_ToUpper T r =
     (if r \<le> MaxASCII then (if 0x61 \<le> r \<and> r \<le> 0x7A then r - 0x20 else r)
      else unicode_To UpperCase r T)"

definition unicode_ToLower :: "CaseRange list \<Rightarrow> rune \<Rightarrow> rune" where
  "unicode_ToLower T r =
     (if r \<le> MaxASCII then (if 0x41 \<le> r \<and> r \<le> 0x5A then r + 0x20 else r)
      else unicode_To LowerCase r T)"

definition strings_ToUpper :: "CaseRange list \<Rightarrow> ustring \<Rightarrow> ustring" where
  "strings_ToUpper T s = map (unicode_ToUpper T) s"

definition strings_ToLower :: "CaseRange list \<Rightarrow> ustring \<Rightarrow> ustring" where
  "strings_ToLower T s = map (unicode_ToLower T) s"

text \<open>\<^verbatim>\<open>strings.Trim(s, cutset)\<close> removes the leading and trailing code points of the cutset.\<close>

definition strings_Trim :: "ustring \<Rightarrow> ustring \<Rightarrow> ustring" where
  "strings_Trim s cutset =
     rev (dropWhile (\<lambda>r. r \<in> set cutset) (rev (dropWhile (\<lambda>r. r \<in> set cutset) s)))"

definition FormatIdentifier :: "CaseRange list \<Rightarrow> ustring \<Rightarrow> ustring \<Rightarrow> ustring" where
  "FormatIdentifier T identifier driverName =
     (let formattedIdentifier = strings_ToLower T identifier in
      if driverName = lit ''oracle'' \<or> driverName = lit ''db2''
      then strings_ToUpper T formattedIdentifier
      else [dquote] @ formattedIdentifier @ [dquote])"

definition DeformatIdentifier :: "CaseRange list \<Rightarrow> ustring \<Rightarrow> ustring \<Rightarrow> ustring" where
  "DeformatIdentifier T identifier driverName =
     (let deformattedIdentifier = strings_Trim identifier [dquote] in
      strings_ToLower T deformattedIdentifier)"

text \<open>
  A value of Go's type \<^verbatim>\<open>any\<close>: a \<^verbatim>\<open>bool\<close>, an \<^verbatim>\<open>int\<close> (the type of the constants \<^verbatim>\<open>1\<close>
  and \<^verbatim>\<open>0\<close> that \<^verbatim>\<open>PrepareArrayArgs\<close> stores), \<^verbatim>\<open>nil\<close>, or a value of any other dynamic
  type.
\<close>

datatype 'a any = A_bool bool | A_int int | A_nil | A_other 'a

record 'a NamedArg =
  Name :: ustring
  Value :: "'a any"

definition sql_Named :: "ustring \<Rightarrow> 'a any \<Rightarrow> 'a NamedArg" where
  "sql_Named n v = \<lparr> Name = n, Value = v \<rparr>"

text \<open>\<^verbatim>\<open>m[k]\<close> on a Go map: the zero value, \<^verbatim>\<open>nil\<close>, when the key is missing.\<close>

definition index_map :: "(ustring \<rightharpoonup> 'a any) \<Rightarrow> ustring \<Rightarrow> 'a any" where
  "index_map m k = (case m k of None \<Rightarrow> A_nil | Some v \<Rightarrow> v)"

text \<open>
  \<^verbatim>\<open>PrepareArrayArgs\<close>. Go leaves the order in which \<^verbatim>\<open>range\<close> visits the keys of a map
  open, so the order is a parameter: the list of keys as the loop visits them. The map is
  passed by reference; the model returns it after the loop as a fourth result. The loop
  assigns to the key it is visiting only, so it neither adds nor removes a key.
\<close>

type_synonym 'a args_acc = "(ustring \<rightharpoonup> 'a any) \<times> ustring \<times> ustring \<times> 'a NamedArg list"

fun PrepareArrayArgs_loop ::
  "CaseRange list \<Rightarrow> ustring \<Rightarrow> ustring list \<Rightarrow> 'a args_acc \<Rightarrow> 'a args_acc" where
  "PrepareArrayArgs_loop T driverName [] acc = acc"
| "PrepareArrayArgs_loop T driverName (k # ks) (keyValues, fieldNames, fieldValues, fieldArgs) =
     (case keyValues k of
        None \<Rightarrow> PrepareArrayArgs_loop T driverName ks (keyValues, fieldNames, fieldValues, fieldArgs)
      | Some v \<Rightarrow>
          (let fieldNames1 = (if fieldNames \<noteq> [] then fieldNames @ lit '', '' else fieldNames);
               fieldValues1 = (if fieldNames \<noteq> [] then fieldValues @ lit '', '' else fieldValues);
               fieldName = FormatIdentifier T k driverName;
               fieldNames2 = fieldNames1 @ fieldName;
               fieldValues2 = fieldValues1 @ lit '':'' @ fieldName;
               keyValues1 =
                 (case v of
                    A_bool b \<Rightarrow>
                      if driverName = lit ''oracle'' \<or> driverName = lit ''sqlserver''
                      then (if b then keyValues(k \<mapsto> A_int 1) else keyValues(k \<mapsto> A_int 0))
                      else keyValues
                  | _ \<Rightarrow> keyValues);
               s = sql_Named fieldName (index_map keyValues1 k)
           in PrepareArrayArgs_loop T driverName ks
                (keyValues1, fieldNames2, fieldValues2, fieldArgs @ [s])))"

definition PrepareArrayArgs ::
  "CaseRange list \<Rightarrow> ustring list \<Rightarrow> (ustring \<rightharpoonup> 'a any) \<Rightarrow> ustring \<Rightarrow> 'a args_acc" where
  "PrepareArrayArgs T order keyValues driverName =
     PrepareArrayArgs_loop T driverName order (keyValues, [], [], [])"

subsection \<open>Vocabulary of the properties\<close>

text \<open>A string of ASCII characters only.\<close>

definition is_ASCII :: "ustring \<Rightarrow> bool" where
  "is_ASCII s = list_all (\<lambda>r. 0 \<le> r \<and> r \<le> MaxASCII) s"

text \<open>
  The case mappings that follow the first lower-casing of a character on the way through
  \<^verbatim>\<open>FormatIdentifier\<close> and \<^verbatim>\<open>DeformatIdentifier\<close> give its lower case form back and
  produce no double quote: for the drivers oracle and db2 these are upper-casing and
  lower-casing, for every other driver lower-casing alone.
\<close>

definition restored :: "CaseRange list \<Rightarrow> ustring \<Rightarrow> rune \<Rightarrow> bool" where
  "restored T driverName r =
     (let l = unicode_ToLower T r in
      if driverName = lit ''oracle'' \<or> driverName = lit ''db2''
      then unicode_ToUpper T l \<noteq> dquote \<and> unicode_ToLower T (unicode_ToUpper T l) = l
      else l \<noteq> dquote \<and> unicode_ToLower T l = l)"

text \<open>A boolean as the integer 1 or 0; any other value as it is.\<close>

definition bool_to_int :: "'a any \<Rightarrow> 'a any" where
  "bool_to_int v = (case v of A_bool b \<Rightarrow> A_int (if b then 1 else 0) | _ \<Rightarrow> v)"

section \<open>Observations on traces\<close>

text \<open>The methods called by a stretch of the trace, in call order.\<close>

fun call_of :: "event \<Rightarrow> extcall option" where
  "call_of (Call c r) = Some c"
| "call_of ev = None"

definition calls :: "event list \<Rightarrow> extcall list" where
  "calls tr = List.map_filter call_of tr"


text \<open>The calls of \<open>start_sequence\<close> whose presence flag is set.\<close>

definition start_calls :: "'w DXApp \<Rightarrow> extcall list" where
  "start_calls a =
     [configurations_Load] @
     (if IsRedisExist a then [redis_LoadFromConfiguration ''redis''] else []) @
     (if IsStorageExist a then [databases_LoadFromConfiguration ''storage''] else []) @
     (if IsRedisExist a then [redis_ConnectAllAtStart] else []) @
     (if IsStorageExist a then [databases_ConnectAllAtStart ''storage'', tables_ConnectAll] else []) @
     (if IsAPIExist a then [api_StartAll] else []) @
     (if IsTaskExist a then [tasks_StartAll] else [])"

text \<open>The teardown calls of \<^verbatim>\<open>Stop\<close> whose presence flag is set, in the order of the source.\<close>

definition stop_calls :: "'w DXApp \<Rightarrow> extcall list" where
  "stop_calls a =
     (if IsTaskExist a then [tasks_StopAll] else []) @
     (if IsAPIExist a then [api_StopAll] else []) @
     (if IsRedisExist a then [redis_DisconnectAll] else []) @
     (if IsStorageExist a then [databases_DisconnectAll] else [])"

text \<open>
  The managers, as the specification groups them: the table registry belongs to storage.
  \<open>start_attempt\<close> gives the subsystem that a call starts, \<open>stop_attempt\<close> the
  subsystem that a call stops.
\<close>

datatype manager = Configuration | Cache | Storage | API | Tasks

fun start_attempt :: "extcall \<Rightarrow> manager option" where
  "start_attempt (redis_LoadFromConfiguration k) = Some Cache"
| "start_attempt redis_ConnectAllAtStart = Some Cache"
| "start_attempt (databases_LoadFromConfiguration k) = Some Storage"
| "start_attempt (databases_ConnectAllAtStart k) = Some Storage"
| "start_attempt tables_ConnectAll = Some Storage"
| "start_attempt api_StartAll = Some API"
| "start_attempt tasks_StartAll = Some Tasks"
| "start_attempt c = None"

fun stop_attempt :: "extcall \<Rightarrow> manager option" where
  "stop_attempt tasks_StopAll = Some Tasks"
| "stop_attempt api_StopAll = Some API"
| "stop_attempt redis_DisconnectAll = Some Cache"
| "stop_attempt databases_DisconnectAll = Some Storage"
| "stop_attempt c = None"



text \<open>
  The subsystems whose start was attempted, in the order of their first start call, and
  the subsystems stopped, in the order of the stop calls.
\<close>

definition start_order :: "event list \<Rightarrow> manager list" where
  "start_order tr = rev (remdups (rev (List.map_filter start_attempt (calls tr))))"

definition stop_order :: "event list \<Rightarrow> manager list" where
  "stop_order tr = List.map_filter stop_attempt (calls tr)"

text \<open>What \<^verbatim>\<open>Stop\<close> leaves in the trace: its two log lines, its hook and its teardown calls.\<close>

fun Stop_event :: "event \<Rightarrow> bool" where
  "Stop_event (LogInfo m) = (m = ''Stopping'' \<or> m = ''Stopped'')"
| "Stop_event (Hook h r) = (h = H_OnStopping)"
| "Stop_event (Call c r) = (stop_attempt c \<noteq> None)"
| "Stop_event ev = False"

text \<open>A teardown call that returned an error.\<close>

fun failed_call :: "event \<Rightarrow> bool" where
  "failed_call (Call c (Some e)) = True"
| "failed_call ev = False"

subsection \<open>Invariants of steps\<close>


definition quiet :: "'w step \<Rightarrow> (event \<Rightarrow> bool) \<Rightarrow> bool" where
  "quiet f P = (\<forall>s. \<exists>tr. trace (snd (f s)) = trace s @ tr \<and> \<not> list_ex P tr)"

definition fail_fast :: "'w step \<Rightarrow> ('w DXApp \<Rightarrow> extcall list) \<Rightarrow> bool" where
  "fail_fast f L =
     (\<forall>s. app (snd (f s)) = app s \<and>
        (\<exists>tr. trace (snd (f s)) = trace s @ tr \<and>
           (case fst (f s) of
              None \<Rightarrow> \<not> list_ex failed_call tr \<and> calls tr = L (app s)
            | Some e \<Rightarrow>
                (\<exists>pre c. tr = pre @ [Call c (Some e)] \<and> \<not> list_ex failed_call pre) \<and>
                prefix (calls tr) (L (app s)))))"

section \<open>Concrete collaborators and inputs\<close>

text \<open>
  Collaborators without a state of their own: the configuration has the sections \<open>secs\<close>
  and the method \<open>c\<close> returns \<open>res c\<close>.
\<close>

definition env_of :: "string set \<Rightarrow> (extcall \<Rightarrow> error option) \<Rightarrow> unit env" where
  "env_of secs res =
     \<lparr> call = (\<lambda>c w. (res c, w)),
       Configurations = (\<lambda>w. secs),
       errgroup_WithContext = (\<lambda>w. w),
       core_RootContextCancel = (\<lambda>w. w) \<rparr>"

definition state_of :: "unit DXApp \<Rightarrow> unit state" where
  "state_of a = \<lparr> app = a, world = (), trace = [] \<rparr>"

definition all_ok :: "extcall \<Rightarrow> error option" where
  "all_ok c = None"

definition fails_at :: "extcall \<Rightarrow> error \<Rightarrow> extcall \<Rightarrow> error option" where
  "fails_at c0 e c = (if c = c0 then Some e else None)"

definition hook_returning :: "error option \<Rightarrow> unit \<Rightarrow> error option \<times> unit" where
  "hook_returning r w = (r, w)"

text \<open>
  An excerpt of Go's table \<^verbatim>\<open>unicode.CaseRanges\<close>: its entries below U+0100 (the ASCII
  letters, the micro sign and the Latin-1 letters) and the entry of U+017F, LATIN SMALL
  LETTER LONG S, \<^verbatim>\<open>{0x017F, 0x017F, d{-300, 0, -300}}\<close>, whose upper case is the ASCII
  letter S.
\<close>

definition CaseRanges_excerpt :: "CaseRange list" where
  "CaseRanges_excerpt =
     [ \<lparr> Lo = 0x41, Hi = 0x5A, DeltaUpper = Shift 0, DeltaLower = Shift 32 \<rparr>,
       \<lparr> Lo = 0x61, Hi = 0x7A, DeltaUpper = Shift (- 32), DeltaLower = Shift 0 \<rparr>,
       \<lparr> Lo = 0xB5, Hi = 0xB5, DeltaUpper = Shift 743, DeltaLower = Shift 0 \<rparr>,
       \<lparr> Lo = 0xC0, Hi = 0xD6, DeltaUpper = Shift 0, DeltaLower = Shift 32 \<rparr>,
       \<lparr> Lo = 0xD8, Hi = 0xDE, DeltaUpper = Shift 0, DeltaLower = Shift 32 \<rparr>,
       \<lparr> Lo = 0xE0, Hi = 0xF6, DeltaUpper = Shift (- 32), DeltaLower = Shift 0 \<rparr>,
       \<lparr> Lo = 0xF8, Hi = 0xFE, DeltaUpper = Shift (- 32), DeltaLower = Shift 0 \<rparr>,
       \<lparr> Lo = 0xFF, Hi = 0xFF, DeltaUpper = Shift 121, DeltaLower = Shift 0 \<rparr>,
       \<lparr> Lo = 0x17F, Hi = 0x17F, DeltaUpper = Shift (- 300), DeltaLower = Shift 0 \<rparr> ]"

section \<open>Lemmas on steps and traces\<close>

subsection \<open>Successful steps\<close>

lemma calls_simps [simp]:
  "calls [] = []"
  "calls (Call c r # tr) = c # calls tr"
  "calls (LogInfo m # tr) = calls tr"
  "calls (LogError m # tr) = calls tr"
  "calls (Hook h r # tr) = calls tr"
  "calls (WithContext # tr) = calls tr"
  "calls (RootContextCancel # tr) = calls tr"
  by (simp_all add: calls_def List.map_filter_def)

lemma calls_append [simp]: "calls (xs @ ys) = calls xs @ calls ys"
  by (simp add: calls_def List.map_filter_def)

lemma map_filter_append: "List.map_filter f (xs @ ys) = List.map_filter f xs @ List.map_filter f ys"
  by (simp add: List.map_filter_def)

lemma prefix_map_filter: "prefix xs ys \<Longrightarrow> prefix (List.map_filter f xs) (List.map_filter f ys)"
  by (auto simp: prefix_def map_filter_append)

lemma seq_ConsE:
  assumes "seq (f # fs) s = (None, s')"
  obtains s1 where "f s = (None, s1)" and "seq fs s1 = (None, s')"
  using assms by (auto split: prod.splits option.splits)

lemma seq_NilD: "seq [] s = (r, s') \<Longrightarrow> r = None \<and> s' = s"
  by simp

lemma invoke_ok:
  "invoke E c s = (None, s') \<Longrightarrow> app s' = app s \<and> trace s' = trace s @ [Call c None]"
  by (auto simp: invoke_def split: prod.splits)

lemma guarded_invoke_ok:
  "guarded p (invoke E c) s = (None, s') \<Longrightarrow>
     app s' = app s \<and> trace s' = trace s @ (if p (app s) then [Call c None] else [])"
  by (auto simp: guarded_def dest: invoke_ok split: if_splits)

lemma run_hook_ok:
  "run_hook h fld s = (None, s') \<Longrightarrow>
     app s' = app s \<and> (\<exists>tr. trace s' = trace s @ tr \<and> calls tr = [])"
  by (auto simp: run_hook_def split: option.splits prod.splits)

lemma pure_step_ok: "pure_step g s = (r, s') \<Longrightarrow> r = None \<and> s' = g s"
  by (auto simp: pure_step_def)

lemma storage_block_ok:
  assumes "guarded p (seq [invoke E c1, invoke E c2, run_hook h fld]) s = (None, s')"
  shows "app s' = app s \<and>
     (\<exists>tr. trace s' = trace s @ tr \<and> calls tr = (if p (app s) then [c1, c2] else []))"
proof (cases "p (app s)")
  case False
  with assms show ?thesis by (simp add: guarded_def)
next
  case True
  with assms have "seq [invoke E c1, invoke E c2, run_hook h fld] s = (None, s')"
    by (simp add: guarded_def)
  then obtain s1 s2 where "invoke E c1 s = (None, s1)" "invoke E c2 s1 = (None, s2)"
      "run_hook h fld s2 = (None, s')"
    by (elim seq_ConsE) auto
  with True show ?thesis
    by (auto dest!: invoke_ok run_hook_ok)
qed

lemma start_ok_calls:
  assumes "start E s = (None, s')"
  shows "\<exists>tr. trace s' = trace s @ tr \<and> calls tr = start_calls (app s')"
  using assms unfolding start_def
  apply (elim seq_ConsE)
  apply (drule seq_NilD)
  apply (drule pure_step_ok invoke_ok guarded_invoke_ok storage_block_ok)+
  apply (auto simp: start_calls_def log_Info_def)
  done

subsection \<open>The calls of a sequence of steps\<close>









subsection \<open>Events that a sequence of steps never appends\<close>

lemma quiet_invoke: "(\<And>r. \<not> P (Call c r)) \<Longrightarrow> quiet (invoke E c) P"
  by (auto simp: quiet_def invoke_def split: prod.splits)

lemma quiet_pure_app: "quiet (pure_step (\<lambda>s. s\<lparr>app := g s\<rparr>)) P"
  by (simp add: quiet_def pure_step_def)

lemma quiet_pure_log: "(\<And>s. \<not> P (LogInfo (m s))) \<Longrightarrow> quiet (pure_step (\<lambda>s. log_Info (m s) s)) P"
  by (simp add: quiet_def pure_step_def log_Info_def)

lemma quiet_run_hook: "(\<And>r. \<not> P (Hook h r)) \<Longrightarrow> quiet (run_hook h fld) P"
  by (auto simp: quiet_def run_hook_def split: option.splits prod.splits)

lemma quiet_guarded: "quiet f P \<Longrightarrow> quiet (guarded p f) P"
  by (auto simp: quiet_def guarded_def)

lemma quiet_seq_Nil: "quiet (seq []) P"
  by (simp add: quiet_def)

lemma quiet_seq_Cons:
  assumes "quiet f P" and "quiet (seq fs) P"
  shows "quiet (seq (f # fs)) P"
  unfolding quiet_def
proof
  fix s
  from assms(1) obtain tr1 where 1: "trace (snd (f s)) = trace s @ tr1" "\<not> list_ex P tr1"
    unfolding quiet_def by blast
  show "\<exists>tr. trace (snd (seq (f # fs) s)) = trace s @ tr \<and> \<not> list_ex P tr"
  proof (cases "f s")
    case (Pair r s1)
    show ?thesis
    proof (cases r)
      case None
      from assms(2) obtain tr2 where 2: "trace (snd (seq fs s1)) = trace s1 @ tr2" "\<not> list_ex P tr2"
        unfolding quiet_def by blast
      from 1 2 Pair None show ?thesis
        by (auto intro!: exI[of _ "tr1 @ tr2"])
    next
      case (Some e)
      with 1 Pair show ?thesis
        by (auto intro!: exI[of _ tr1])
    qed
  qed
qed

lemma banner_not_Stop: "\<not> Stop_event (LogInfo (t @ '' '' @ v @ '' '' @ d))"
proof -
  have "CHR '' '' \<in> set (t @ '' '' @ v @ '' '' @ d)" by simp
  moreover have "CHR '' '' \<notin> set ''Stopping''" "CHR '' '' \<notin> set ''Stopped''" by simp_all
  ultimately have "t @ '' '' @ v @ '' '' @ d \<noteq> ''Stopping''" "t @ '' '' @ v @ '' '' @ d \<noteq> ''Stopped''"
    by metis+
  then show ?thesis by simp
qed

lemma quiet_start: "quiet (start E) Stop_event"
  unfolding start_def
  by (intro quiet_seq_Cons quiet_seq_Nil quiet_guarded quiet_invoke quiet_pure_app
      quiet_pure_log quiet_run_hook banner_not_Stop) simp_all

subsection \<open>Sequences that stop at the first failed call\<close>

lemma fail_fast_guarded_invoke:
  "fail_fast (guarded p (invoke E c)) (\<lambda>a. if p a then [c] else [])"
  unfolding fail_fast_def
proof
  fix s :: "'a state"
  obtain r w' where cw: "call E c (world s) = (r, w')" by (cases "call E c (world s)")
  show "app (snd (guarded p (invoke E c) s)) = app s \<and>
        (\<exists>tr. trace (snd (guarded p (invoke E c) s)) = trace s @ tr \<and>
           (case fst (guarded p (invoke E c) s) of
              None \<Rightarrow> \<not> list_ex failed_call tr \<and> calls tr = (if p (app s) then [c] else [])
            | Some e \<Rightarrow>
                (\<exists>pre c. tr = pre @ [Call c (Some e)] \<and> \<not> list_ex failed_call pre) \<and>
                prefix (calls tr) (if p (app s) then [c] else [])))"
  proof (cases "p (app s)")
    case False
    then show ?thesis by (simp add: guarded_def)
  next
    case True
    show ?thesis
    proof (cases r)
      case None
      with True cw show ?thesis by (simp add: guarded_def invoke_def)
    next
      case (Some e)
      have "[Call c (Some e)] = [] @ [Call c (Some e)] \<and> \<not> list_ex failed_call []" by simp
      then have "\<exists>pre c'. [Call c (Some e)] = pre @ [Call c' (Some e)] \<and> \<not> list_ex failed_call pre"
        by blast
      with True cw Some show ?thesis by (simp add: guarded_def invoke_def)
    qed
  qed
qed

lemma fail_fast_pure_log: "fail_fast (pure_step (log_Info m)) (\<lambda>a. [])"
  by (simp add: fail_fast_def pure_step_def log_Info_def)

lemma fail_fast_seq_Nil: "fail_fast (seq []) (\<lambda>a. [])"
  by (simp add: fail_fast_def)

lemma fail_fastD:
  assumes "fail_fast f L" and "f s = (r, s')"
  shows "app s' = app s"
    and "\<exists>tr. trace s' = trace s @ tr \<and>
           (case r of
              None \<Rightarrow> \<not> list_ex failed_call tr \<and> calls tr = L (app s)
            | Some e \<Rightarrow>
                (\<exists>pre c. tr = pre @ [Call c (Some e)] \<and> \<not> list_ex failed_call pre) \<and>
                prefix (calls tr) (L (app s)))"
  using assms(1)[unfolded fail_fast_def, rule_format, of s] assms(2) by simp_all

lemma fail_fastI:
  assumes "\<And>s r s'. f s = (r, s') \<Longrightarrow> app s' = app s \<and>
        (\<exists>tr. trace s' = trace s @ tr \<and>
           (case r of
              None \<Rightarrow> \<not> list_ex failed_call tr \<and> calls tr = L (app s)
            | Some e \<Rightarrow>
                (\<exists>pre c. tr = pre @ [Call c (Some e)] \<and> \<not> list_ex failed_call pre) \<and>
                prefix (calls tr) (L (app s))))"
  shows "fail_fast f L"
  unfolding fail_fast_def
proof
  fix s
  have "f s = (fst (f s), snd (f s))" by simp
  from assms[OF this]
  show "app (snd (f s)) = app s \<and>
        (\<exists>tr. trace (snd (f s)) = trace s @ tr \<and>
           (case fst (f s) of
              None \<Rightarrow> \<not> list_ex failed_call tr \<and> calls tr = L (app s)
            | Some e \<Rightarrow>
                (\<exists>pre c. tr = pre @ [Call c (Some e)] \<and> \<not> list_ex failed_call pre) \<and>
                prefix (calls tr) (L (app s))))" .
qed

lemma fail_fast_seq_Cons:
  assumes "fail_fast f L1" and "fail_fast (seq fs) L2"
  shows "fail_fast (seq (f # fs)) (\<lambda>a. L1 a @ L2 a)"
proof (rule fail_fastI)
  fix s r s'
  assume run: "seq (f # fs) s = (r, s')"
  obtain r1 s1 where fs: "f s = (r1, s1)" by (cases "f s")
  from fail_fastD[OF assms(1) fs] obtain tr1 where a1: "app s1 = app s"
    and t1: "trace s1 = trace s @ tr1"
    and c1: "case r1 of
              None \<Rightarrow> \<not> list_ex failed_call tr1 \<and> calls tr1 = L1 (app s)
            | Some e \<Rightarrow>
                (\<exists>pre c. tr1 = pre @ [Call c (Some e)] \<and> \<not> list_ex failed_call pre) \<and>
                prefix (calls tr1) (L1 (app s))"
    by blast
  show "app s' = app s \<and>
        (\<exists>tr. trace s' = trace s @ tr \<and>
           (case r of
              None \<Rightarrow> \<not> list_ex failed_call tr \<and> calls tr = L1 (app s) @ L2 (app s)
            | Some e \<Rightarrow>
                (\<exists>pre c. tr = pre @ [Call c (Some e)] \<and> \<not> list_ex failed_call pre) \<and>
                prefix (calls tr) (L1 (app s) @ L2 (app s))))"
  proof (cases r1)
    case (Some e)
    with run fs have rs: "r = Some e" "s' = s1" by simp_all
    from c1 Some have "(\<exists>pre c. tr1 = pre @ [Call c (Some e)] \<and> \<not> list_ex failed_call pre)"
      and "prefix (calls tr1) (L1 (app s) @ L2 (app s))" by simp_all
    with rs a1 t1 show ?thesis by simp
  next
    case None
    with run fs have ss: "seq fs s1 = (r, s')" by simp
    from fail_fastD[OF assms(2) ss] obtain tr2 where a2: "app s' = app s1"
      and t2: "trace s' = trace s1 @ tr2"
      and c2: "case r of
              None \<Rightarrow> \<not> list_ex failed_call tr2 \<and> calls tr2 = L2 (app s1)
            | Some e \<Rightarrow>
                (\<exists>pre c. tr2 = pre @ [Call c (Some e)] \<and> \<not> list_ex failed_call pre) \<and>
                prefix (calls tr2) (L2 (app s1))"
      by blast
    from None c1 have n1: "\<not> list_ex failed_call tr1" "calls tr1 = L1 (app s)" by simp_all
    have tr: "trace s' = trace s @ (tr1 @ tr2)" using t1 t2 by simp
    have cs: "case r of
              None \<Rightarrow> \<not> list_ex failed_call (tr1 @ tr2) \<and> calls (tr1 @ tr2) = L1 (app s) @ L2 (app s)
            | Some e \<Rightarrow>
                (\<exists>pre c. tr1 @ tr2 = pre @ [Call c (Some e)] \<and> \<not> list_ex failed_call pre) \<and>
                prefix (calls (tr1 @ tr2)) (L1 (app s) @ L2 (app s))"
    proof (cases r)
      case None
      with c2 n1 a1 show ?thesis by simp
    next
      case (Some e)
      with c2 obtain pre c where p: "tr2 = pre @ [Call c (Some e)]" "\<not> list_ex failed_call pre"
        and q: "prefix (calls tr2) (L2 (app s1))" by auto
      have "tr1 @ tr2 = (tr1 @ pre) @ [Call c (Some e)] \<and> \<not> list_ex failed_call (tr1 @ pre)"
        using p n1 by simp
      then have "\<exists>pre c. tr1 @ tr2 = pre @ [Call c (Some e)] \<and> \<not> list_ex failed_call pre"
        by blast
      moreover have "prefix (calls (tr1 @ tr2)) (L1 (app s) @ L2 (app s))"
        using q n1 a1 by simp
      ultimately show ?thesis using Some by simp
    qed
    have "app s' = app s" using a1 a2 by simp
    then show ?thesis
      by (rule conjI) (rule exI[of _ "tr1 @ tr2"], rule conjI[OF tr cs])
  qed
qed

lemma fail_fast_cong:
  assumes "fail_fast f L" and "\<And>a. L a = L' a"
  shows "fail_fast f L'"
proof -
  from assms(2) have "L = L'" by (rule ext)
  with assms(1) show ?thesis by simp
qed

lemma fail_fast_teardown:
  "fail_fast
     (seq
       [ guarded IsTaskExist (invoke E tasks_StopAll),
         guarded IsAPIExist (invoke E api_StopAll),
         guarded IsRedisExist (invoke E redis_DisconnectAll),
         guarded IsStorageExist (invoke E databases_DisconnectAll),
         pure_step (log_Info ''Stopped'') ])
     stop_calls"
proof -
  have "fail_fast
     (seq
       [ guarded IsTaskExist (invoke E tasks_StopAll),
         guarded IsAPIExist (invoke E api_StopAll),
         guarded IsRedisExist (invoke E redis_DisconnectAll),
         guarded IsStorageExist (invoke E databases_DisconnectAll),
         pure_step (log_Info ''Stopped'') ])
     (\<lambda>a. (if IsTaskExist a then [tasks_StopAll] else []) @
          (if IsAPIExist a then [api_StopAll] else []) @
          (if IsRedisExist a then [redis_DisconnectAll] else []) @
          (if IsStorageExist a then [databases_DisconnectAll] else []) @ [] @ [])"
    by (intro fail_fast_seq_Cons fail_fast_seq_Nil fail_fast_guarded_invoke fail_fast_pure_log)
  then show ?thesis
    by (rule fail_fast_cong) (simp add: stop_calls_def)
qed

section \<open>Properties of package app\<close>

subsection \<open>\<^verbatim>\<open>start\<close>\<close>

text \<open>
  The definitions that a run on concrete collaborators unfolds.
\<close>

lemmas run_defs =
  start_def Stop_def execute_def execute_body_def deferred_Stop_def Run_def logged_def
  root_cancel_def with_context_def invoke_def run_hook_def pure_step_def guarded_def
  lookup_section_def log_Info_def log_Error_def
  env_of_def state_of_def init_App_def all_ok_def fails_at_def hook_returning_def




text \<open>
  C7, amended. When the configuration loads and holds none of the sections redis, storage,
  api and tasks, \<^verbatim>\<open>start\<close> succeeds, sets the four presence flags to false and calls
  one manager method only, \<^verbatim>\<open>configurations.Manager.Load\<close>.
\<close>

theorem start_no_sections:
  assumes "call E configurations_Load (world s) = (None, w1)"
    and "Configurations E w1 \<inter> {''redis'', ''storage'', ''api'', ''tasks''} = {}"
  shows "start E s =
     (None,
      s\<lparr> app := (app s)\<lparr> IsRedisExist := False, IsStorageExist := False,
                          IsAPIExist := False, IsTaskExist := False \<rparr>,
         world := w1,
         trace := trace s @
           [ LogInfo (Title (app s) @ '' '' @ Version (app s) @ '' '' @ Description (app s)),
             Call configurations_Load None ] \<rparr>)"
  using assms
  by (simp add: start_def invoke_def pure_step_def guarded_def lookup_section_def log_Info_def)

text \<open>
  An empty configuration; the cache flag, set from an earlier run, is reset.
\<close>

theorem start_no_sections_witness:
  "start (env_of {} all_ok) (state_of (init_App\<lparr>IsRedisExist := True\<rparr>)) =
     (None,
      \<lparr> app = init_App\<lparr> IsRedisExist := False, IsStorageExist := False,
                          IsAPIExist := False, IsTaskExist := False \<rparr>,
         world = (),
         trace = [ LogInfo ''  '', Call configurations_Load None ] \<rparr>)"
proof -
  have 1: "call (env_of {} all_ok) configurations_Load (world (state_of (init_App\<lparr>IsRedisExist := True\<rparr>))) = (None, ())"
    by (simp add: env_of_def all_ok_def)
  have 2: "Configurations (env_of {} all_ok) () \<inter> {''redis'', ''storage'', ''api'', ''tasks''} = {}"
    by (simp add: env_of_def)
  show ?thesis
    using start_no_sections[OF 1 2] by (simp add: state_of_def init_App_def)
qed

text \<open>
  C7 as stated fails: with none of the four sections, \<^verbatim>\<open>start\<close> still calls the
  configuration manager.
\<close>

theorem start_no_sections_counterexample:
  "Configurations (env_of {} all_ok) () \<inter> {''redis'', ''storage'', ''api'', ''tasks''} = {} \<and>
   calls (trace (snd (start (env_of {} all_ok) (state_of init_App)))) = [configurations_Load] \<and>
   calls (trace (snd (start (env_of {} all_ok) (state_of init_App)))) \<noteq> []"
  by (simp add: run_defs)

subsection \<open>\<^verbatim>\<open>Stop\<close>\<close>

text \<open>
  What \<^verbatim>\<open>Stop\<close> appends to the trace: its first log line, the hook if it is set, and
  the teardown calls, which stop at the first one that fails.
\<close>

lemma Stop_trace:
  assumes "Stop E s = (r, s')"
  shows "\<exists>tr. trace s' =
           trace s @
           (LogInfo ''Stopping'' #
            (case OnStopping (app s) of
               None \<Rightarrow> []
             | Some h \<Rightarrow> [Hook H_OnStopping (fst (h (world s)))])) @ tr \<and>
         (case r of
            None \<Rightarrow> \<not> list_ex failed_call tr \<and> calls tr = stop_calls (app s)
          | Some e \<Rightarrow>
              (\<exists>pre c. tr = pre @ [Call c (Some e)] \<and> \<not> list_ex failed_call pre) \<and>
              prefix (calls tr) (stop_calls (app s)))"
proof -
  define s2 where "s2 = snd (run_hook H_OnStopping OnStopping (log_Info ''Stopping'' s))"
  have a2: "app s2 = app s"
    by (simp add: s2_def run_hook_def log_Info_def split: option.splits prod.splits)
  have t2: "trace s2 =
      trace s @
      (LogInfo ''Stopping'' #
       (case OnStopping (app s) of
          None \<Rightarrow> []
        | Some h \<Rightarrow> [Hook H_OnStopping (fst (h (world s)))]))"
    by (simp add: s2_def run_hook_def log_Info_def split: option.splits prod.splits)
  from assms have "seq
       [ guarded IsTaskExist (invoke E tasks_StopAll),
         guarded IsAPIExist (invoke E api_StopAll),
         guarded IsRedisExist (invoke E redis_DisconnectAll),
         guarded IsStorageExist (invoke E databases_DisconnectAll),
         pure_step (log_Info ''Stopped'') ] s2 = (r, s')"
    by (simp add: Stop_def s2_def Let_def)
  from fail_fastD(2)[OF fail_fast_teardown this, unfolded a2 t2] show ?thesis
    by simp
qed

lemma start_order_start_calls:
  assumes "calls tr = start_calls a"
  shows "start_order tr =
           filter (\<lambda>m. m \<in> set (start_order tr)) [Cache, Storage, API, Tasks]"
    and "List.map_filter stop_attempt (stop_calls a) =
           filter (\<lambda>m. m \<in> set (start_order tr)) [Tasks, API, Cache, Storage]"
  using assms
  by (cases "IsRedisExist a"; cases "IsStorageExist a"; cases "IsAPIExist a"; cases "IsTaskExist a";
      simp add: start_order_def start_calls_def stop_calls_def List.map_filter_def)+

text \<open>
  C2, amended. When \<^verbatim>\<open>start\<close> has succeeded and \<^verbatim>\<open>Stop\<close> runs on the flags it left,
  the subsystems are stopped in the order tasks, API, cache, storage, restricted to the
  subsystems whose start was attempted; \<^verbatim>\<open>Stop\<close> goes through all of them when it
  returns nil and through a prefix of them when a teardown call fails. The subsystems
  were started in the order cache, storage, API, tasks, so the stop order is the reverse
  of the start order except that the cache is disconnected before the storage.
\<close>

theorem Stop_order_after_start:
  assumes "start E s = (None, s1)" and "app s2 = app s1" and "Stop E s2 = (r, s3)"
  shows "\<exists>tr1 tr2. trace s1 = trace s @ tr1 \<and> trace s3 = trace s2 @ tr2 \<and>
     start_order tr1 = filter (\<lambda>m. m \<in> set (start_order tr1)) [Cache, Storage, API, Tasks] \<and>
     prefix (stop_order tr2)
       (filter (\<lambda>m. m \<in> set (start_order tr1)) [Tasks, API, Cache, Storage]) \<and>
     (r = None \<longrightarrow>
        stop_order tr2 = filter (\<lambda>m. m \<in> set (start_order tr1)) [Tasks, API, Cache, Storage])"
proof -
  from start_ok_calls[OF assms(1)] obtain tr1 where tr1: "trace s1 = trace s @ tr1"
    and c1: "calls tr1 = start_calls (app s1)" by blast
  from Stop_trace[OF assms(3)] obtain tr where
    tr: "trace s3 =
           trace s2 @
           (LogInfo ''Stopping'' #
            (case OnStopping (app s2) of
               None \<Rightarrow> []
             | Some h \<Rightarrow> [Hook H_OnStopping (fst (h (world s2)))])) @ tr"
    and cs: "case r of
            None \<Rightarrow> \<not> list_ex failed_call tr \<and> calls tr = stop_calls (app s2)
          | Some e \<Rightarrow>
              (\<exists>pre c. tr = pre @ [Call c (Some e)] \<and> \<not> list_ex failed_call pre) \<and>
              prefix (calls tr) (stop_calls (app s2))"
    by blast
  define tr2 where "tr2 =
           (LogInfo ''Stopping'' #
            (case OnStopping (app s2) of
               None \<Rightarrow> []
             | Some h \<Rightarrow> [Hook H_OnStopping (fst (h (world s2)))])) @ tr"
  have c2: "calls tr2 = calls tr"
    by (simp add: tr2_def split: option.splits)
  have pre: "prefix (calls tr) (stop_calls (app s1))"
    using cs assms(2) by (cases r) simp_all
  have full: "r = None \<longrightarrow> calls tr = stop_calls (app s1)"
    using cs assms(2) by (cases r) simp_all
  note so = start_order_start_calls[OF c1]
  have "prefix (stop_order tr2)
       (filter (\<lambda>m. m \<in> set (start_order tr1)) [Tasks, API, Cache, Storage])"
    using prefix_map_filter[OF pre, of stop_attempt] so(2) c2 by (simp add: stop_order_def)
  moreover have "r = None \<longrightarrow>
        stop_order tr2 = filter (\<lambda>m. m \<in> set (start_order tr1)) [Tasks, API, Cache, Storage]"
    using full so(2) c2 by (simp add: stop_order_def)
  moreover have "trace s3 = trace s2 @ tr2" using tr by (simp add: tr2_def)
  ultimately show ?thesis using tr1 so(1) by blast
qed

text \<open>
  A configuration with a cache, a storage and a tasks section, on collaborators that
  never fail.
\<close>

theorem Stop_order_after_start_witness:
  "fst (start (env_of {''redis'', ''storage'', ''tasks''} all_ok) (state_of init_App)) = None \<and>
   fst (Stop (env_of {''redis'', ''storage'', ''tasks''} all_ok)
          (snd (start (env_of {''redis'', ''storage'', ''tasks''} all_ok) (state_of init_App)))) = None \<and>
   (\<exists>tr1 tr2.
      trace (snd (start (env_of {''redis'', ''storage'', ''tasks''} all_ok) (state_of init_App))) =
        trace (state_of init_App) @ tr1 \<and>
      trace (snd (Stop (env_of {''redis'', ''storage'', ''tasks''} all_ok)
          (snd (start (env_of {''redis'', ''storage'', ''tasks''} all_ok) (state_of init_App))))) =
        trace (snd (start (env_of {''redis'', ''storage'', ''tasks''} all_ok) (state_of init_App))) @ tr2 \<and>
      start_order tr1 = filter (\<lambda>m. m \<in> set (start_order tr1)) [Cache, Storage, API, Tasks] \<and>
      prefix (stop_order tr2)
        (filter (\<lambda>m. m \<in> set (start_order tr1)) [Tasks, API, Cache, Storage]) \<and>
      stop_order tr2 = filter (\<lambda>m. m \<in> set (start_order tr1)) [Tasks, API, Cache, Storage])"
proof -
  let ?E = "env_of {''redis'', ''storage'', ''tasks''} all_ok"
  let ?s1 = "snd (start ?E (state_of init_App))"
  have 1: "fst (start ?E (state_of init_App)) = None"
    by (simp add: run_defs)
  have 2: "fst (Stop ?E ?s1) = None"
    by (simp add: run_defs)
  from 1 have a: "start ?E (state_of init_App) = (None, ?s1)"
    by (simp add: prod_eq_iff)
  from 2 have b: "Stop ?E ?s1 = (None, snd (Stop ?E ?s1))"
    by (simp add: prod_eq_iff)
  from Stop_order_after_start[OF a refl b] 1 2 show ?thesis by simp
qed

text \<open>
  C2 as stated fails in a run with a cache and a storage section: the cache is started
  first and stopped first.
\<close>

theorem Stop_order_counterexample:
  "start_order (trace (snd (Run (env_of {''redis'', ''storage''} all_ok) (state_of (init_App\<lparr>IsLoop := True\<rparr>))))) =
     [Cache, Storage] \<and>
   stop_order (trace (snd (Run (env_of {''redis'', ''storage''} all_ok) (state_of (init_App\<lparr>IsLoop := True\<rparr>))))) =
     [Cache, Storage] \<and>
   stop_order (trace (snd (Run (env_of {''redis'', ''storage''} all_ok) (state_of (init_App\<lparr>IsLoop := True\<rparr>))))) \<noteq>
     rev (start_order (trace (snd (Run (env_of {''redis'', ''storage''} all_ok) (state_of (init_App\<lparr>IsLoop := True\<rparr>))))))"
  by (simp add: run_defs start_order_def stop_order_def List.map_filter_def)

text \<open>
  C6. In \<^verbatim>\<open>Stop\<close>, a teardown call that returns an error is the last event of \<^verbatim>\<open>Stop\<close>
  (no later teardown step runs, and the final log line is not written) and its error is
  the result of \<^verbatim>\<open>Stop\<close>; when no teardown call fails, \<^verbatim>\<open>Stop\<close> returns nil after
  calling every teardown step whose flag is set; the teardown calls are always a prefix of
  those steps. The hook \<^verbatim>\<open>OnStopping\<close>, when set, runs before the teardown, and the
  error it returns has no part in any of this.
\<close>

theorem Stop_fail_fast:
  assumes "Stop E s = (r, s')"
  shows "\<exists>tr. trace s' = trace s @ tr \<and>
     (\<forall>c e. Call c (Some e) \<in> set tr \<longrightarrow> r = Some e \<and> (\<exists>pre. tr = pre @ [Call c (Some e)])) \<and>
     (\<not> list_ex failed_call tr \<longrightarrow> r = None \<and> calls tr = stop_calls (app s)) \<and>
     prefix (calls tr) (stop_calls (app s)) \<and>
     (\<forall>h. OnStopping (app s) = Some h \<longrightarrow>
        (\<exists>post. tr = LogInfo ''Stopping'' # Hook H_OnStopping (fst (h (world s))) # post))"
proof -
  define tr0 where "tr0 =
           LogInfo ''Stopping'' #
            (case OnStopping (app s) of
               None \<Rightarrow> []
             | Some h \<Rightarrow> [Hook H_OnStopping (fst (h (world s)))])"
  from Stop_trace[OF assms] obtain tr where
    tr: "trace s' = trace s @ tr0 @ tr"
    and cs: "case r of
            None \<Rightarrow> \<not> list_ex failed_call tr \<and> calls tr = stop_calls (app s)
          | Some e \<Rightarrow>
              (\<exists>pre c. tr = pre @ [Call c (Some e)] \<and> \<not> list_ex failed_call pre) \<and>
              prefix (calls tr) (stop_calls (app s))"
    unfolding tr0_def by blast
  have q0: "\<not> list_ex failed_call tr0" "calls tr0 = []"
    by (simp_all add: tr0_def split: option.splits)
  have no_call0: "\<And>c x. Call c x \<notin> set tr0"
    by (auto simp: tr0_def split: option.splits)
  have failed: "\<And>c e xs. Call c (Some e) \<in> set xs \<Longrightarrow> list_ex failed_call xs"
    by (force simp: list_ex_iff)
  have i: "\<forall>c e. Call c (Some e) \<in> set (tr0 @ tr) \<longrightarrow>
             r = Some e \<and> (\<exists>pre. tr0 @ tr = pre @ [Call c (Some e)])"
  proof (intro allI impI)
    fix c e
    assume "Call c (Some e) \<in> set (tr0 @ tr)"
    with no_call0 have mem: "Call c (Some e) \<in> set tr" by auto
    show "r = Some e \<and> (\<exists>pre. tr0 @ tr = pre @ [Call c (Some e)])"
    proof (cases r)
      case None
      with cs failed[OF mem] show ?thesis by simp
    next
      case (Some e')
      with cs obtain pre c' where p: "tr = pre @ [Call c' (Some e')]" "\<not> list_ex failed_call pre"
        by auto
      from p(2) failed have "Call c (Some e) \<notin> set pre" by blast
      with mem p(1) have "c = c'" "e = e'" by auto
      with Some p(1) have "r = Some e" "tr0 @ tr = (tr0 @ pre) @ [Call c (Some e)]" by simp_all
      then show ?thesis by blast
    qed
  qed
  have ii: "\<not> list_ex failed_call (tr0 @ tr) \<longrightarrow> r = None \<and> calls (tr0 @ tr) = stop_calls (app s)"
  proof
    assume n: "\<not> list_ex failed_call (tr0 @ tr)"
    show "r = None \<and> calls (tr0 @ tr) = stop_calls (app s)"
    proof (cases r)
      case None
      with cs q0 show ?thesis by simp
    next
      case (Some e)
      with cs obtain pre c where "tr = pre @ [Call c (Some e)]" by auto
      with n show ?thesis by simp
    qed
  qed
  have iii: "prefix (calls (tr0 @ tr)) (stop_calls (app s))"
    using cs q0 by (cases r) simp_all
  have iv: "\<forall>h. OnStopping (app s) = Some h \<longrightarrow>
        (\<exists>post. tr0 @ tr = LogInfo ''Stopping'' # Hook H_OnStopping (fst (h (world s))) # post)"
    by (simp add: tr0_def)
  from tr i ii iii iv show ?thesis by blast
qed

text \<open>
  The hook fails, the tasks stop, the API fails to stop: the cache is not disconnected
  and \<^verbatim>\<open>Stop\<close> returns the error of the API.
\<close>

theorem Stop_fail_fast_witness:
  "Stop (env_of {} (fails_at api_StopAll ''api down''))
     (state_of (init_App\<lparr> IsTaskExist := True, IsAPIExist := True, IsRedisExist := True,
                          OnStopping := Some (hook_returning (Some ''hook failed'')) \<rparr>)) =
     (Some ''api down'',
      \<lparr> app = init_App\<lparr> IsTaskExist := True, IsAPIExist := True, IsRedisExist := True,
                         OnStopping := Some (hook_returning (Some ''hook failed'')) \<rparr>,
        world = (),
        trace = [ LogInfo ''Stopping'', Hook H_OnStopping (Some ''hook failed''),
                  Call tasks_StopAll None, Call api_StopAll (Some ''api down'') ] \<rparr>) \<and>
   (\<exists>tr. [ LogInfo ''Stopping'', Hook H_OnStopping (Some ''hook failed''),
            Call tasks_StopAll None, Call api_StopAll (Some ''api down'') ] = tr \<and>
      (\<exists>pre. tr = pre @ [Call api_StopAll (Some ''api down'')]) \<and>
      prefix (calls tr) [tasks_StopAll, api_StopAll, redis_DisconnectAll] \<and>
      (\<exists>post. tr = LogInfo ''Stopping'' # Hook H_OnStopping (Some ''hook failed'') # post))"
proof -
  let ?E = "env_of {} (fails_at api_StopAll ''api down'')"
  let ?a = "init_App\<lparr> IsTaskExist := True, IsAPIExist := True, IsRedisExist := True,
                          OnStopping := Some (hook_returning (Some ''hook failed'')) \<rparr> :: unit DXApp"
  let ?tr = "[ LogInfo ''Stopping'', Hook H_OnStopping (Some ''hook failed''),
                  Call tasks_StopAll None, Call api_StopAll (Some ''api down'') ]"
  have run: "Stop ?E (state_of ?a) = (Some ''api down'', \<lparr> app = ?a, world = (), trace = ?tr \<rparr>)"
    by (simp add: run_defs)
  from Stop_fail_fast[OF run] obtain tr where
    t: "?tr = tr"
    and i: "\<forall>c e. Call c (Some e) \<in> set tr \<longrightarrow>
              Some ''api down'' = Some e \<and> (\<exists>pre. tr = pre @ [Call c (Some e)])"
    and iii: "prefix (calls tr) (stop_calls ?a)"
    and iv: "\<forall>h. OnStopping ?a = Some h \<longrightarrow>
        (\<exists>post. tr = LogInfo ''Stopping'' # Hook H_OnStopping (fst (h ())) # post)"
    by (auto simp: state_of_def)
  from t have "Call api_StopAll (Some ''api down'') \<in> set tr" by auto
  with i have 1: "\<exists>pre. tr = pre @ [Call api_StopAll (Some ''api down'')]" by blast
  from iii have 2: "prefix (calls tr) [tasks_StopAll, api_StopAll, redis_DisconnectAll]"
    by (simp add: stop_calls_def init_App_def)
  from iv have 3: "\<exists>post. tr = LogInfo ''Stopping'' # Hook H_OnStopping (Some ''hook failed'') # post"
    by (simp add: hook_returning_def init_App_def)
  from run t 1 2 3 show ?thesis by blast
qed

subsection \<open>\<^verbatim>\<open>execute\<close> and \<^verbatim>\<open>Run\<close>\<close>

text \<open>
  Without the loop flag, the part of \<^verbatim>\<open>execute\<close> after \<^verbatim>\<open>start\<close> appends no event of
  \<^verbatim>\<open>Stop\<close>.
\<close>

lemma execute_body_quiet:
  assumes "\<not> IsLoop (app s1)"
  shows "\<exists>tr. trace (snd (execute_body E s1)) = trace s1 @ tr \<and> \<not> list_ex Stop_event tr"
proof (cases "OnExecute (app s1)")
  case None
  with assms show ?thesis
    by (simp add: execute_body_def run_hook_def log_Info_def)
next
  case (Some f)
  obtain r w' where f: "f (world s1) = (r, w')" by (cases "f (world s1)")
  show ?thesis
  proof (cases r)
    case None
    with Some f assms show ?thesis
      by (simp add: execute_body_def run_hook_def log_Info_def)
  next
    case (Some e)
    with \<open>OnExecute (app s1) = Some f\<close> f assms show ?thesis
      by (simp add: execute_body_def run_hook_def log_Info_def)
  qed
qed

text \<open>
  C1, amended. If \<^verbatim>\<open>start\<close> returns an error inside \<^verbatim>\<open>execute\<close>, then \<^verbatim>\<open>execute\<close>
  returns that error after cancelling the root context and \<^verbatim>\<open>Stop\<close> is not called,
  whether \<^verbatim>\<open>IsLoop\<close> is true or false: the trace of \<^verbatim>\<open>execute\<close> holds no log line, hook
  or teardown call of \<^verbatim>\<open>Stop\<close>. When \<^verbatim>\<open>start\<close> succeeds and \<^verbatim>\<open>IsLoop\<close> is false,
  \<^verbatim>\<open>execute\<close> returns the result of its remaining part and \<^verbatim>\<open>Stop\<close> is not called
  either. The call of \<^verbatim>\<open>Stop\<close> is deferred only once \<^verbatim>\<open>start\<close> has succeeded and
  \<^verbatim>\<open>IsLoop\<close> is true; it then runs when the rest of \<^verbatim>\<open>execute\<close> returns, its error is
  logged and the result of \<^verbatim>\<open>execute\<close> is not changed by it.
\<close>

theorem execute_defers_Stop:
  "(start E (with_context E s) = (Some e, s1) \<longrightarrow>
      execute E s = (Some e, root_cancel E s1) \<and>
      (\<exists>tr. trace (snd (execute E s)) = trace s @ tr \<and> \<not> list_ex Stop_event tr)) \<and>
   (start E (with_context E s) = (None, s1) \<and> \<not> IsLoop (app s1) \<longrightarrow>
      execute E s = (fst (execute_body E s1), root_cancel E (snd (execute_body E s1))) \<and>
      (\<exists>tr. trace (snd (execute E s)) = trace s @ tr \<and> \<not> list_ex Stop_event tr)) \<and>
   (start E (with_context E s) = (None, s1) \<and> IsLoop (app s1) \<and>
    execute_body E s1 = (r, s2) \<and> Stop E s2 = (r2, s3) \<longrightarrow>
      fst (execute E s) = r \<and>
      trace (snd (execute E s)) =
        trace s3 @
        (case r2 of None \<Rightarrow> [] | Some err2 \<Rightarrow> [LogInfo (''Error in Stopping: ('' @ err2 @ '')'')]) @
        [RootContextCancel])"
proof (intro conjI impI)
  assume st: "start E (with_context E s) = (Some e, s1)"
  then show ex: "execute E s = (Some e, root_cancel E s1)"
    by (simp add: execute_def)
  from quiet_start[of E] st obtain tr0 where
    t0: "trace s1 = trace (with_context E s) @ tr0" and q: "\<not> list_ex Stop_event tr0"
    unfolding quiet_def by (metis snd_conv)
  have "trace (snd (execute E s)) = trace s @ (WithContext # tr0 @ [RootContextCancel])"
    using ex t0 by (simp add: root_cancel_def with_context_def)
  moreover have "\<not> list_ex Stop_event (WithContext # tr0 @ [RootContextCancel])"
    using q by simp
  ultimately show "\<exists>tr. trace (snd (execute E s)) = trace s @ tr \<and> \<not> list_ex Stop_event tr"
    by blast
next
  assume h: "start E (with_context E s) = (None, s1) \<and> \<not> IsLoop (app s1)"
  then show ex: "execute E s = (fst (execute_body E s1), root_cancel E (snd (execute_body E s1)))"
    by (simp add: execute_def split: prod.splits)
  from quiet_start[of E] h obtain tr0 where
    t0: "trace s1 = trace (with_context E s) @ tr0" and q0: "\<not> list_ex Stop_event tr0"
    unfolding quiet_def by (metis snd_conv)
  from h execute_body_quiet[of s1 E] obtain tr1 where
    t1: "trace (snd (execute_body E s1)) = trace s1 @ tr1" and q1: "\<not> list_ex Stop_event tr1"
    by blast
  have "trace (snd (execute E s)) = trace s @ (WithContext # tr0 @ tr1 @ [RootContextCancel])"
    using ex t0 t1 by (simp add: root_cancel_def with_context_def)
  moreover have "\<not> list_ex Stop_event (WithContext # tr0 @ tr1 @ [RootContextCancel])"
    using q0 q1 by simp
  ultimately show "\<exists>tr. trace (snd (execute E s)) = trace s @ tr \<and> \<not> list_ex Stop_event tr"
    by blast
next
  assume h: "start E (with_context E s) = (None, s1) \<and> IsLoop (app s1) \<and>
    execute_body E s1 = (r, s2) \<and> Stop E s2 = (r2, s3)"
  then have ex: "execute E s = (r, root_cancel E (deferred_Stop E s2))"
    by (simp add: execute_def)
  then show "fst (execute E s) = r" by simp
  from h ex show "trace (snd (execute E s)) =
        trace s3 @
        (case r2 of None \<Rightarrow> [] | Some err2 \<Rightarrow> [LogInfo (''Error in Stopping: ('' @ err2 @ '')'')]) @
        [RootContextCancel]"
    by (cases r2) (simp_all add: deferred_Stop_def root_cancel_def log_Info_def)
qed

text \<open>
  A cache that cannot be connected, without the loop flag; a successful start without the
  loop flag, where the cache stays connected; and a run with the loop flag whose cache
  cannot be disconnected: \<^verbatim>\<open>execute\<close> returns nil and logs the error of \<^verbatim>\<open>Stop\<close>.
\<close>

theorem execute_defers_Stop_witness:
  "execute (env_of {''redis''} (fails_at redis_ConnectAllAtStart ''refused''))
     (state_of (init_App\<lparr>IsLoop := False\<rparr>)) =
     (Some ''refused'',
      \<lparr> app = init_App\<lparr>IsLoop := False, IsRedisExist := True\<rparr>, world = (),
        trace = [ WithContext, LogInfo ''  '', Call configurations_Load None,
                  Call (redis_LoadFromConfiguration ''redis'') None,
                  Call redis_ConnectAllAtStart (Some ''refused''), RootContextCancel ] \<rparr>) \<and>
   execute (env_of {''redis''} (fails_at redis_DisconnectAll ''busy''))
     (state_of (init_App\<lparr>IsLoop := False\<rparr>)) =
     (None,
      \<lparr> app = init_App\<lparr>IsLoop := False, IsRedisExist := True\<rparr>, world = (),
        trace = [ WithContext, LogInfo ''  '', Call configurations_Load None,
                  Call (redis_LoadFromConfiguration ''redis'') None,
                  Call redis_ConnectAllAtStart None, LogInfo ''Starting'',
                  RootContextCancel ] \<rparr>) \<and>
   fst (execute (env_of {''redis''} (fails_at redis_DisconnectAll ''busy''))
          (state_of (init_App\<lparr>IsLoop := True\<rparr>))) = None \<and>
   trace (snd (execute (env_of {''redis''} (fails_at redis_DisconnectAll ''busy''))
          (state_of (init_App\<lparr>IsLoop := True\<rparr>)))) =
     [ WithContext, LogInfo ''  '', Call configurations_Load None,
       Call (redis_LoadFromConfiguration ''redis'') None, Call redis_ConnectAllAtStart None,
       LogInfo ''Starting'', LogInfo ''Waiting...'', Call errgroup_Wait None,
       LogInfo ''Stopping'', Call redis_DisconnectAll (Some ''busy''),
       LogInfo ''Error in Stopping: (busy)'', RootContextCancel ]"
proof -
  let ?E1 = "env_of {''redis''} (fails_at redis_ConnectAllAtStart ''refused'')"
  let ?s = "state_of (init_App\<lparr>IsLoop := False\<rparr>)"
  let ?s1 = "\<lparr> app = init_App\<lparr>IsLoop := False, IsRedisExist := True\<rparr>, world = (),
        trace = [ WithContext, LogInfo ''  '', Call configurations_Load None,
                  Call (redis_LoadFromConfiguration ''redis'') None,
                  Call redis_ConnectAllAtStart (Some ''refused'') ] \<rparr> :: unit state"
  have a: "start ?E1 (with_context ?E1 ?s) = (Some ''refused'', ?s1)"
    by (simp add: run_defs)
  from execute_defers_Stop[of ?E1 ?s "''refused''" ?s1] a
  have 1: "execute ?E1 ?s = (Some ''refused'', root_cancel ?E1 ?s1)" by blast
  let ?E2 = "env_of {''redis''} (fails_at redis_DisconnectAll ''busy'')"
  let ?u1 = "\<lparr> app = init_App\<lparr>IsLoop := False, IsRedisExist := True\<rparr>, world = (),
        trace = [ WithContext, LogInfo ''  '', Call configurations_Load None,
                  Call (redis_LoadFromConfiguration ''redis'') None,
                  Call redis_ConnectAllAtStart None ] \<rparr> :: unit state"
  have g: "start ?E2 (with_context ?E2 ?s) = (None, ?u1) \<and> \<not> IsLoop (app ?u1)"
    by (simp add: run_defs)
  from execute_defers_Stop[of ?E2 ?s _ ?u1] g
  have 3: "execute ?E2 ?s = (fst (execute_body ?E2 ?u1), root_cancel ?E2 (snd (execute_body ?E2 ?u1)))"
    by blast
  have 4: "execute_body ?E2 ?u1 =
      (None, ?u1\<lparr>trace := trace ?u1 @ [LogInfo ''Starting'']\<rparr>)"
    by (simp add: run_defs)
  let ?t = "state_of (init_App\<lparr>IsLoop := True\<rparr>)"
  let ?t1 = "snd (start ?E2 (with_context ?E2 ?t))"
  let ?t2 = "snd (execute_body ?E2 ?t1)"
  let ?t3 = "snd (Stop ?E2 ?t2)"
  have b: "start ?E2 (with_context ?E2 ?t) = (None, ?t1)"
    by (simp add: run_defs prod_eq_iff)
  have c: "IsLoop (app ?t1)"
    by (simp add: run_defs)
  have d: "execute_body ?E2 ?t1 = (None, ?t2)"
    by (simp add: run_defs prod_eq_iff)
  have e: "Stop ?E2 ?t2 = (Some ''busy'', ?t3)"
    by (simp add: run_defs prod_eq_iff)
  have f: "trace ?t3 =
     [ WithContext, LogInfo ''  '', Call configurations_Load None,
       Call (redis_LoadFromConfiguration ''redis'') None, Call redis_ConnectAllAtStart None,
       LogInfo ''Starting'', LogInfo ''Waiting...'', Call errgroup_Wait None,
       LogInfo ''Stopping'', Call redis_DisconnectAll (Some ''busy'') ]"
    by (simp add: run_defs)
  from execute_defers_Stop[of ?E2 ?t _ ?t1 None ?t2 "Some ''busy''" ?t3] b c d e
  have 2: "fst (execute ?E2 ?t) = None \<and>
      trace (snd (execute ?E2 ?t)) =
        trace ?t3 @ [LogInfo (''Error in Stopping: ('' @ ''busy'' @ '')'')] @ [RootContextCancel]"
    by simp
  from 1 2 3 4 f show ?thesis
    by (simp add: root_cancel_def env_of_def)
qed

text \<open>
  C1 as stated fails: with \<^verbatim>\<open>IsLoop\<close> true and \<^verbatim>\<open>OnStopping\<close> set, a cache that is loaded
  and cannot be connected makes \<^verbatim>\<open>start\<close> fail, and \<^verbatim>\<open>execute\<close> returns without any
  event of \<^verbatim>\<open>Stop\<close>: the check of the error of \<^verbatim>\<open>start\<close> (line 199) returns before the
  call of \<^verbatim>\<open>Stop\<close> is deferred (line 203).
\<close>

theorem execute_start_error_counterexample:
  "IsLoop (app (state_of (init_App\<lparr>IsLoop := True, OnStopping := Some (hook_returning None)\<rparr>))) \<and>
   fst (start (env_of {''redis''} (fails_at redis_ConnectAllAtStart ''refused''))
          (with_context (env_of {''redis''} (fails_at redis_ConnectAllAtStart ''refused''))
             (state_of (init_App\<lparr>IsLoop := True, OnStopping := Some (hook_returning None)\<rparr>)))) =
     Some ''refused'' \<and>
   trace (snd (execute (env_of {''redis''} (fails_at redis_ConnectAllAtStart ''refused''))
          (state_of (init_App\<lparr>IsLoop := True, OnStopping := Some (hook_returning None)\<rparr>)))) =
     [ WithContext, LogInfo ''  '', Call configurations_Load None,
       Call (redis_LoadFromConfiguration ''redis'') None,
       Call redis_ConnectAllAtStart (Some ''refused''), RootContextCancel ] \<and>
   \<not> list_ex Stop_event
       (trace (snd (execute (env_of {''redis''} (fails_at redis_ConnectAllAtStart ''refused''))
          (state_of (init_App\<lparr>IsLoop := True, OnStopping := Some (hook_returning None)\<rparr>)))))"
  by (simp add: run_defs)

text \<open>
  C5. If \<^verbatim>\<open>OnDefine\<close> returns an error, \<^verbatim>\<open>Run\<close> returns that error and does nothing
  after the hook but log it: neither \<^verbatim>\<open>OnDefineConfiguration\<close>, \<^verbatim>\<open>OnDefineAPI\<close> nor
  \<^verbatim>\<open>execute\<close> is invoked. The same holds for an error of \<^verbatim>\<open>OnDefineConfiguration\<close> after
  \<^verbatim>\<open>OnDefine\<close> succeeded or was not set, and for an error of \<^verbatim>\<open>OnDefineAPI\<close> after the
  two earlier hooks succeeded or were not set.
\<close>

theorem Run_define_fail_fast:
  "(OnDefine (app s) = Some f \<and> f (world s) = (Some e, w') \<longrightarrow>
      Run E s =
        (Some e, s\<lparr>world := w', trace := trace s @ [Hook H_OnDefine (Some e), LogError e]\<rparr>)) \<and>
   (run_hook H_OnDefine OnDefine s = (None, s1) \<and>
    OnDefineConfiguration (app s1) = Some f \<and> f (world s1) = (Some e, w') \<longrightarrow>
      Run E s =
        (Some e,
         s1\<lparr>world := w', trace := trace s1 @ [Hook H_OnDefineConfiguration (Some e), LogError e]\<rparr>)) \<and>
   (run_hook H_OnDefine OnDefine s = (None, s1) \<and>
    run_hook H_OnDefineConfiguration OnDefineConfiguration s1 = (None, s2) \<and>
    OnDefineAPI (app s2) = Some f \<and> f (world s2) = (Some e, w') \<longrightarrow>
      Run E s =
        (Some e,
         s2\<lparr>world := w', trace := trace s2 @ [Hook H_OnDefineAPI (Some e), LogError e]\<rparr>))"
  by (simp add: Run_def logged_def run_hook_def log_Error_def)

text \<open>
  One run for each of the three hooks failing.
\<close>

theorem Run_define_fail_fast_witness:
  "Run (env_of {''redis''} all_ok)
     (state_of (init_App\<lparr> OnDefine := Some (hook_returning (Some ''bad define'')),
                          OnDefineConfiguration := Some (hook_returning None),
                          OnDefineAPI := Some (hook_returning None) \<rparr>)) =
     (Some ''bad define'',
      \<lparr> app = init_App\<lparr> OnDefine := Some (hook_returning (Some ''bad define'')),
                         OnDefineConfiguration := Some (hook_returning None),
                         OnDefineAPI := Some (hook_returning None) \<rparr>,
        world = (),
        trace = [Hook H_OnDefine (Some ''bad define''), LogError ''bad define''] \<rparr>) \<and>
   Run (env_of {''redis''} all_ok)
     (state_of (init_App\<lparr> OnDefine := Some (hook_returning None),
                          OnDefineConfiguration := Some (hook_returning (Some ''bad configuration'')),
                          OnDefineAPI := Some (hook_returning None) \<rparr>)) =
     (Some ''bad configuration'',
      \<lparr> app = init_App\<lparr> OnDefine := Some (hook_returning None),
                         OnDefineConfiguration := Some (hook_returning (Some ''bad configuration'')),
                         OnDefineAPI := Some (hook_returning None) \<rparr>,
        world = (),
        trace = [ Hook H_OnDefine None, Hook H_OnDefineConfiguration (Some ''bad configuration''),
                  LogError ''bad configuration'' ] \<rparr>) \<and>
   Run (env_of {''redis''} all_ok)
     (state_of (init_App\<lparr> OnDefineAPI := Some (hook_returning (Some ''bad api'')) \<rparr>)) =
     (Some ''bad api'',
      \<lparr> app = init_App\<lparr> OnDefineAPI := Some (hook_returning (Some ''bad api'')) \<rparr>,
        world = (),
        trace = [Hook H_OnDefineAPI (Some ''bad api''), LogError ''bad api''] \<rparr>)"
proof -
  let ?E = "env_of {''redis''} all_ok"
  let ?a1 = "init_App\<lparr> OnDefine := Some (hook_returning (Some ''bad define'')),
                          OnDefineConfiguration := Some (hook_returning None),
                          OnDefineAPI := Some (hook_returning None) \<rparr> :: unit DXApp"
  let ?a2 = "init_App\<lparr> OnDefine := Some (hook_returning None),
                          OnDefineConfiguration := Some (hook_returning (Some ''bad configuration'')),
                          OnDefineAPI := Some (hook_returning None) \<rparr> :: unit DXApp"
  let ?a3 = "init_App\<lparr> OnDefineAPI := Some (hook_returning (Some ''bad api'')) \<rparr> :: unit DXApp"
  have 1: "OnDefine (app (state_of ?a1)) = Some (hook_returning (Some ''bad define'')) \<and>
      hook_returning (Some ''bad define'') (world (state_of ?a1)) = (Some ''bad define'', ())"
    by (simp add: state_of_def init_App_def hook_returning_def)
  have 2: "run_hook H_OnDefine OnDefine (state_of ?a2) =
        (None, \<lparr>app = ?a2, world = (), trace = [Hook H_OnDefine None]\<rparr>) \<and>
      OnDefineConfiguration (app \<lparr>app = ?a2, world = (), trace = [Hook H_OnDefine None]\<rparr>) =
        Some (hook_returning (Some ''bad configuration'')) \<and>
      hook_returning (Some ''bad configuration'')
        (world \<lparr>app = ?a2, world = (), trace = [Hook H_OnDefine None]\<rparr>) =
        (Some ''bad configuration'', ())"
    by (simp add: state_of_def init_App_def hook_returning_def run_hook_def)
  have 3: "run_hook H_OnDefine OnDefine (state_of ?a3) = (None, state_of ?a3) \<and>
      run_hook H_OnDefineConfiguration OnDefineConfiguration (state_of ?a3) = (None, state_of ?a3) \<and>
      OnDefineAPI (app (state_of ?a3)) = Some (hook_returning (Some ''bad api'')) \<and>
      hook_returning (Some ''bad api'') (world (state_of ?a3)) = (Some ''bad api'', ())"
    by (simp add: state_of_def init_App_def hook_returning_def run_hook_def)
  from Run_define_fail_fast[of "state_of ?a1" "hook_returning (Some ''bad define'')"
      "''bad define''" "()" ?E] 1
  have r1: "Run ?E (state_of ?a1) =
      (Some ''bad define'',
       (state_of ?a1)\<lparr>world := (), trace := trace (state_of ?a1) @
          [Hook H_OnDefine (Some ''bad define''), LogError ''bad define'']\<rparr>)"
    by blast
  from Run_define_fail_fast[of "state_of ?a2" "hook_returning (Some ''bad configuration'')"
      "''bad configuration''" "()" ?E "\<lparr>app = ?a2, world = (), trace = [Hook H_OnDefine None]\<rparr>"] 2
  have r2: "Run ?E (state_of ?a2) =
      (Some ''bad configuration'',
       \<lparr>app = ?a2, world = (), trace = [Hook H_OnDefine None]\<rparr>
         \<lparr>world := (), trace := trace \<lparr>app = ?a2, world = (), trace = [Hook H_OnDefine None]\<rparr> @
          [Hook H_OnDefineConfiguration (Some ''bad configuration''), LogError ''bad configuration'']\<rparr>)"
    by blast
  from Run_define_fail_fast[of "state_of ?a3" "hook_returning (Some ''bad api'')"
      "''bad api''" "()" ?E "state_of ?a3" "state_of ?a3"] 3
  have r3: "Run ?E (state_of ?a3) =
      (Some ''bad api'',
       (state_of ?a3)\<lparr>world := (), trace := trace (state_of ?a3) @
          [Hook H_OnDefineAPI (Some ''bad api''), LogError ''bad api'']\<rparr>)"
    by blast
  from r1 r2 r3 show ?thesis
    by (simp add: state_of_def)
qed

text \<open>
  The sequential part of waiting for the supervised tasks: when \<^verbatim>\<open>start\<close> and
  \<^verbatim>\<open>OnExecute\<close> succeed with \<^verbatim>\<open>IsLoop\<close> true and \<^verbatim>\<open>Wait\<close> returns an error, that error
  is logged and is the result of \<^verbatim>\<open>execute\<close>, and the deferred \<^verbatim>\<open>Stop\<close> runs. What
  \<^verbatim>\<open>Wait\<close> returns is decided by the errgroup and the tasks that run concurrently, which
  are not modelled.
\<close>

lemma execute_Wait_error:
  assumes "start E (with_context E s) = (None, s1)" and "IsLoop (app s1)"
    and "run_hook H_OnExecute OnExecute (log_Info ''Starting'' s1) = (None, s2)"
    and "call E errgroup_Wait (world s2) = (Some e, w')"
  shows "fst (execute E s) = Some e"
    and "\<exists>tr. trace (snd (execute E s)) =
           trace s2 @ [ LogInfo ''Waiting...'', Call errgroup_Wait (Some e),
                        LogInfo (''Exit reason: '' @ e), LogInfo ''Stopping'' ] @ tr"
proof -
  from assms(3) have a2: "app s2 = app s1"
    by (auto simp: run_hook_def log_Info_def split: option.splits prod.splits)
  let ?s4 = "log_Info (''Exit reason: '' @ e)
      (s2\<lparr>world := w', trace := trace s2 @ [LogInfo ''Waiting...'', Call errgroup_Wait (Some e)]\<rparr>)"
  from assms a2 have body: "execute_body E s1 = (Some e, ?s4)"
    by (simp add: execute_body_def Let_def invoke_def log_Info_def)
  with assms(1,2) have ex: "execute E s = (Some e, root_cancel E (deferred_Stop E ?s4))"
    by (simp add: execute_def)
  then show "fst (execute E s) = Some e" by simp
  obtain r2 s5 where st: "Stop E ?s4 = (r2, s5)" by (cases "Stop E ?s4")
  from Stop_trace[OF st] obtain tr where
    "trace s5 = trace ?s4 @
           (LogInfo ''Stopping'' #
            (case OnStopping (app ?s4) of
               None \<Rightarrow> []
             | Some h \<Rightarrow> [Hook H_OnStopping (fst (h (world ?s4)))])) @ tr"
    by blast
  then have "\<exists>tr. trace s5 = trace s2 @ [ LogInfo ''Waiting...'', Call errgroup_Wait (Some e),
                        LogInfo (''Exit reason: '' @ e), LogInfo ''Stopping'' ] @ tr"
    by (simp add: log_Info_def)
  with ex st show "\<exists>tr. trace (snd (execute E s)) =
           trace s2 @ [ LogInfo ''Waiting...'', Call errgroup_Wait (Some e),
                        LogInfo (''Exit reason: '' @ e), LogInfo ''Stopping'' ] @ tr"
    by (cases r2) (auto simp: deferred_Stop_def root_cancel_def log_Info_def)
qed

subsection \<open>\<^verbatim>\<open>Set\<close> and \<^verbatim>\<open>GetNameId\<close>\<close>

text \<open>
  C8. For every nameId, title, description, isLoop and debugKey (and every environment and
  every earlier value of the package variables), \<^verbatim>\<open>GetNameId()\<close> after
  \<^verbatim>\<open>Set(nameId, title, description, isLoop, debugKey)\<close> returns that nameId; in particular
  \<^verbatim>\<open>Set("svc1","Title","Desc",true,"k")\<close> followed by \<^verbatim>\<open>GetNameId()\<close> returns \<^verbatim>\<open>"svc1"\<close>.
\<close>

theorem Set_GetNameId:
  "GetNameId (Set getenv n title description isLoop debugKey g) = n \<and>
   GetNameId (Set getenv ''svc1'' ''Title'' ''Desc'' True ''k'' g) = ''svc1''"
  by (simp add: GetNameId_def Set_def)

section \<open>Properties of package utils\<close>

text \<open>
  On ASCII the two case mappings do not read the table: lower case is stable under
  another lower-casing and under upper-casing followed by lower-casing, and neither
  mapping produces a double quote from another character.
\<close>

lemma ToLower_ASCII:
  assumes "0 \<le> r" and "r \<le> MaxASCII"
  shows "0 \<le> unicode_ToLower T r" and "unicode_ToLower T r \<le> MaxASCII"
    and "unicode_ToLower T (unicode_ToLower T r) = unicode_ToLower T r"
    and "unicode_ToLower T (unicode_ToUpper T (unicode_ToLower T r)) = unicode_ToLower T r"
    and "r \<noteq> dquote \<Longrightarrow> unicode_ToLower T r \<noteq> dquote"
    and "r \<noteq> dquote \<Longrightarrow> unicode_ToUpper T (unicode_ToLower T r) \<noteq> dquote"
  using assms
  by (auto simp: unicode_ToLower_def unicode_ToUpper_def MaxASCII_def dquote_def)

lemma Trim_no_quote:
  assumes "dquote \<notin> set s"
  shows "strings_Trim s [dquote] = s"
proof -
  have 1: "dropWhile (\<lambda>r. r \<in> set [dquote]) s = s"
    using assms by (cases s) auto
  have "dquote \<notin> set (rev s)" using assms by simp
  then have 2: "dropWhile (\<lambda>r. r \<in> set [dquote]) (rev s) = rev s"
    by (cases "rev s") auto
  show ?thesis by (simp only: strings_Trim_def 1 2 rev_rev_ident)
qed

lemma Trim_quoted:
  assumes "dquote \<notin> set s"
  shows "strings_Trim ([dquote] @ s @ [dquote]) [dquote] = s"
proof (cases s)
  case Nil
  then show ?thesis by (simp add: strings_Trim_def)
next
  case (Cons x xs)
  with assms have x: "x \<noteq> dquote" by auto
  have 1: "dropWhile (\<lambda>r. r \<in> set [dquote]) ([dquote] @ s @ [dquote]) = s @ [dquote]"
    using Cons x by simp
  have "dquote \<notin> set (rev s)" using assms by simp
  then have "dropWhile (\<lambda>r. r \<in> set [dquote]) (rev s) = rev s"
    by (cases "rev s") auto
  then have 2: "dropWhile (\<lambda>r. r \<in> set [dquote]) (rev (s @ [dquote])) = rev s"
    by simp
  show ?thesis by (simp only: strings_Trim_def 1 2 rev_rev_ident)
qed

text \<open>
  C9, amended. For every identifier that contains no double quote and every driver name,
  \<^verbatim>\<open>DeformatIdentifier(FormatIdentifier(id, driver), driver)\<close> is the lower case form of
  the identifier whenever the case mappings that follow the first lower-casing give the
  lower case form of each of its characters back and produce no double quote: lower-casing
  alone for every driver but oracle and db2, upper-casing and lower-casing for these two.
  Every ASCII identifier without a double quote meets this condition, for every driver
  and whatever the Unicode case table is. \<^verbatim>\<open>DeformatIdentifier\<close> returns the same result
  for every driver name, on every string.
\<close>

theorem Deformat_Format_round_trip:
  "(dquote \<notin> set identifier \<and> list_all (restored T driverName) identifier \<longrightarrow>
      DeformatIdentifier T (FormatIdentifier T identifier driverName) driverName =
        strings_ToLower T identifier) \<and>
   (is_ASCII identifier \<and> dquote \<notin> set identifier \<longrightarrow>
      list_all (restored T driverName) identifier) \<and>
   DeformatIdentifier T x driverName1 = DeformatIdentifier T x driverName2"
proof (intro conjI impI)
  show "DeformatIdentifier T x driverName1 = DeformatIdentifier T x driverName2"
    by (simp add: DeformatIdentifier_def)
next
  assume a: "is_ASCII identifier \<and> dquote \<notin> set identifier"
  have "restored T driverName r" if "r \<in> set identifier" for r
  proof -
    from that a have "0 \<le> r" "r \<le> MaxASCII" "r \<noteq> dquote"
      by (auto simp: is_ASCII_def list_all_iff)
    then show ?thesis
      using ToLower_ASCII(3,4,5,6)[of r T] by (simp add: restored_def Let_def)
  qed
  then show "list_all (restored T driverName) identifier"
    by (simp add: list_all_iff)
next
  assume h: "dquote \<notin> set identifier \<and> list_all (restored T driverName) identifier"
  then have res: "\<And>r. r \<in> set identifier \<Longrightarrow> restored T driverName r"
    by (simp add: list_all_iff)
  let ?L = "strings_ToLower T identifier"
  let ?U = "strings_ToUpper T ?L"
  show "DeformatIdentifier T (FormatIdentifier T identifier driverName) driverName = ?L"
  proof (cases "driverName = lit ''oracle'' \<or> driverName = lit ''db2''")
    case True
    with res have r: "\<And>r. r \<in> set identifier \<Longrightarrow>
        unicode_ToUpper T (unicode_ToLower T r) \<noteq> dquote \<and>
        unicode_ToLower T (unicode_ToUpper T (unicode_ToLower T r)) = unicode_ToLower T r"
      by (simp add: restored_def Let_def)
    have nqU: "dquote \<notin> set ?U"
    proof
      assume "dquote \<in> set ?U"
      then obtain r where "r \<in> set identifier" "unicode_ToUpper T (unicode_ToLower T r) = dquote"
        by (auto simp: strings_ToLower_def strings_ToUpper_def)
      with r show False by blast
    qed
    have LU: "strings_ToLower T ?U = ?L"
      using r by (simp add: strings_ToLower_def strings_ToUpper_def)
    from True have "FormatIdentifier T identifier driverName = ?U"
      by (simp add: FormatIdentifier_def)
    then show ?thesis
      by (simp add: DeformatIdentifier_def Trim_no_quote[OF nqU] LU)
  next
    case False
    with res have r: "\<And>r. r \<in> set identifier \<Longrightarrow>
        unicode_ToLower T r \<noteq> dquote \<and>
        unicode_ToLower T (unicode_ToLower T r) = unicode_ToLower T r"
      by (simp add: restored_def Let_def)
    have nqL: "dquote \<notin> set ?L"
    proof
      assume "dquote \<in> set ?L"
      then obtain r where "r \<in> set identifier" "unicode_ToLower T r = dquote"
        by (auto simp: strings_ToLower_def)
      with r show False by blast
    qed
    have LL: "strings_ToLower T ?L = ?L"
      using r by (simp add: strings_ToLower_def)
    from False have "FormatIdentifier T identifier driverName = [dquote] @ ?L @ [dquote]"
      by (simp add: FormatIdentifier_def)
    then show ?thesis
      by (simp only: DeformatIdentifier_def Let_def Trim_quoted[OF nqL] LL)
  qed
qed

text \<open>
  The long s under a driver that quotes; a Latin-1 identifier and a mixed-case ASCII
  identifier under a driver that upper-cases.
\<close>

theorem Deformat_Format_round_trip_witness:
  "DeformatIdentifier CaseRanges_excerpt
     (FormatIdentifier CaseRanges_excerpt [0x17F] (lit ''postgres'')) (lit ''postgres'') = [0x17F] \<and>
   DeformatIdentifier CaseRanges_excerpt
     (FormatIdentifier CaseRanges_excerpt [0xC9, 0x74, 0xE9] (lit ''oracle'')) (lit ''oracle'') =
     [0xE9, 0x74, 0xE9] \<and>
   is_ASCII (lit ''User_Id'') \<and> dquote \<notin> set (lit ''User_Id'') \<and>
   DeformatIdentifier CaseRanges_excerpt
     (FormatIdentifier CaseRanges_excerpt (lit ''User_Id'') (lit ''oracle'')) (lit ''oracle'') =
     lit ''user_id''"
proof -
  have ne: "lit ''postgres'' \<noteq> lit ''oracle''" "lit ''postgres'' \<noteq> lit ''db2''"
    by (simp_all add: lit_def)
  have 1: "dquote \<notin> set [0x17F] \<and> list_all (restored CaseRanges_excerpt (lit ''postgres'')) [0x17F]"
    using ne
    by (simp add: restored_def unicode_ToLower_def MaxASCII_def CaseRanges_excerpt_def dquote_def)
  have l1: "strings_ToLower CaseRanges_excerpt [0x17F] = [0x17F]"
    by (simp add: strings_ToLower_def unicode_ToLower_def MaxASCII_def CaseRanges_excerpt_def)
  have 2: "dquote \<notin> set [0xC9, 0x74, 0xE9] \<and>
      list_all (restored CaseRanges_excerpt (lit ''oracle'')) [0xC9, 0x74, 0xE9]"
    by (simp add: restored_def unicode_ToLower_def unicode_ToUpper_def MaxASCII_def
        CaseRanges_excerpt_def dquote_def)
  have l2: "strings_ToLower CaseRanges_excerpt [0xC9, 0x74, 0xE9] = [0xE9, 0x74, 0xE9]"
    by (simp add: strings_ToLower_def unicode_ToLower_def MaxASCII_def CaseRanges_excerpt_def)
  have a: "is_ASCII (lit ''User_Id'')"
    by (simp add: is_ASCII_def lit_def MaxASCII_def)
  have q: "dquote \<notin> set (lit ''User_Id'')"
    by (simp add: lit_def dquote_def)
  have l3: "strings_ToLower CaseRanges_excerpt (lit ''User_Id'') = lit ''user_id''"
    by (simp add: strings_ToLower_def unicode_ToLower_def lit_def MaxASCII_def)
  note th = Deformat_Format_round_trip
  from th[of "[0x17F]" CaseRanges_excerpt "lit ''postgres''"] 1 l1
  have r1: "DeformatIdentifier CaseRanges_excerpt
     (FormatIdentifier CaseRanges_excerpt [0x17F] (lit ''postgres'')) (lit ''postgres'') = [0x17F]"
    by simp
  from th[of "[0xC9, 0x74, 0xE9]" CaseRanges_excerpt "lit ''oracle''"] 2 l2
  have r2: "DeformatIdentifier CaseRanges_excerpt
     (FormatIdentifier CaseRanges_excerpt [0xC9, 0x74, 0xE9] (lit ''oracle'')) (lit ''oracle'') =
     [0xE9, 0x74, 0xE9]"
    by simp
  from th[of "lit ''User_Id''" CaseRanges_excerpt "lit ''oracle''"] a q l3
  have r3: "DeformatIdentifier CaseRanges_excerpt
     (FormatIdentifier CaseRanges_excerpt (lit ''User_Id'') (lit ''oracle'')) (lit ''oracle'') =
     lit ''user_id''"
    by simp
  from r1 r2 r3 a q show ?thesis by simp
qed

text \<open>
  C9 as stated fails outside ASCII for the drivers oracle and db2: the identifier that is
  the single letter U+017F (long s) has no double quote and is its own lower case form;
  \<^verbatim>\<open>FormatIdentifier\<close> upper-cases it to the ASCII letter S, which \<^verbatim>\<open>DeformatIdentifier\<close>
  lower-cases to the ASCII letter s.
\<close>

theorem Deformat_Format_counterexample:
  "dquote \<notin> set [0x17F] \<and>
   FormatIdentifier CaseRanges_excerpt [0x17F] (lit ''oracle'') = lit ''S'' \<and>
   DeformatIdentifier CaseRanges_excerpt
     (FormatIdentifier CaseRanges_excerpt [0x17F] (lit ''oracle'')) (lit ''oracle'') = lit ''s'' \<and>
   strings_ToLower CaseRanges_excerpt [0x17F] = [0x17F] \<and>
   DeformatIdentifier CaseRanges_excerpt
     (FormatIdentifier CaseRanges_excerpt [0x17F] (lit ''oracle'')) (lit ''oracle'') \<noteq>
     strings_ToLower CaseRanges_excerpt [0x17F]"
  by (simp add: DeformatIdentifier_def FormatIdentifier_def strings_ToLower_def
      strings_ToUpper_def strings_Trim_def unicode_ToLower_def unicode_ToUpper_def
      MaxASCII_def CaseRanges_excerpt_def dquote_def lit_def)

lemma bool_to_int_simps [simp]:
  "bool_to_int (A_bool b) = A_int (if b then 1 else 0)"
  "bool_to_int (A_int i) = A_int i"
  "bool_to_int A_nil = A_nil"
  "bool_to_int (A_other y) = A_other y"
  by (simp_all add: bool_to_int_def)

text \<open>
  The map after the loop has visited the keys \<open>ks\<close>: the value of a visited key is
  converted when the driver is oracle or sqlserver, every other entry is as before.
\<close>

lemma PrepareArrayArgs_loop_map:
  "fst (PrepareArrayArgs_loop T driverName ks (keyValues, fieldNames, fieldValues, fieldArgs)) k =
     (if k \<in> set ks \<and> (driverName = lit ''oracle'' \<or> driverName = lit ''sqlserver'')
      then map_option bool_to_int (keyValues k) else keyValues k)"
proof (induction ks arbitrary: keyValues fieldNames fieldValues fieldArgs)
  case Nil
  show ?case by simp
next
  case (Cons k0 ks)
  show ?case
  proof (cases "keyValues k0")
    case None
    then show ?thesis using Cons.IH by auto
  next
    case (Some v)
    show ?thesis
    proof (cases "driverName = lit ''oracle'' \<or> driverName = lit ''sqlserver''")
      case False
      with Some show ?thesis
        using Cons.IH by (cases v) (simp_all add: Let_def)
    next
      case True
      show ?thesis
      proof (cases v)
        case (A_bool b)
        with Some True show ?thesis
          using Cons.IH by (cases b) (auto simp: Let_def)
      next
        case (A_int i)
        with Some True show ?thesis
          using Cons.IH by (auto simp: Let_def)
      next
        case A_nil
        with Some True show ?thesis
          using Cons.IH by (auto simp: Let_def)
      next
        case (A_other y)
        with Some True show ?thesis
          using Cons.IH by (auto simp: Let_def)
      qed
    qed
  qed
qed

text \<open>
  C10. \<^verbatim>\<open>PrepareArrayArgs\<close> changes the map it is given: when the loop visits every key
  of the map (in any order), then for the drivers oracle and sqlserver every boolean
  value is replaced by the integer 1 (true) or 0 (false) and every other value is left
  as it is, and for every other driver name the map is unchanged. No key is added or
  removed.
\<close>

theorem PrepareArrayArgs_mutates_map:
  assumes "set order = dom keyValues"
  shows "fst (PrepareArrayArgs T order keyValues driverName) k =
     (if driverName = lit ''oracle'' \<or> driverName = lit ''sqlserver''
      then map_option bool_to_int (keyValues k) else keyValues k)"
proof (cases "k \<in> dom keyValues")
  case True
  with assms show ?thesis
    by (simp add: PrepareArrayArgs_def PrepareArrayArgs_loop_map)
next
  case False
  then have "keyValues k = None" by auto
  then show ?thesis
    by (simp add: PrepareArrayArgs_def PrepareArrayArgs_loop_map)
qed

text \<open>
  A map with a boolean and a string: oracle turns the boolean into 1 and keeps the
  string, postgres keeps the boolean.
\<close>

theorem PrepareArrayArgs_mutates_map_witness:
  "set [lit ''active'', lit ''name''] =
     dom [lit ''active'' \<mapsto> A_bool True, lit ''name'' \<mapsto> A_other ''x''] \<and>
   fst (PrepareArrayArgs CaseRanges_excerpt [lit ''active'', lit ''name'']
          [lit ''active'' \<mapsto> A_bool True, lit ''name'' \<mapsto> A_other ''x''] (lit ''oracle''))
       (lit ''active'') = Some (A_int 1) \<and>
   fst (PrepareArrayArgs CaseRanges_excerpt [lit ''active'', lit ''name'']
          [lit ''active'' \<mapsto> A_bool True, lit ''name'' \<mapsto> A_other ''x''] (lit ''oracle''))
       (lit ''name'') = Some (A_other ''x'') \<and>
   fst (PrepareArrayArgs CaseRanges_excerpt [lit ''active'', lit ''name'']
          [lit ''active'' \<mapsto> A_bool True, lit ''name'' \<mapsto> A_other ''x''] (lit ''postgres''))
       (lit ''active'') = Some (A_bool True)"
proof -
  let ?m = "[lit ''active'' \<mapsto> A_bool True, lit ''name'' \<mapsto> A_other ''x''] :: ustring \<rightharpoonup> string any"
  have d: "set [lit ''active'', lit ''name''] = dom ?m"
    by auto
  have ne: "lit ''postgres'' \<noteq> lit ''oracle''" "lit ''postgres'' \<noteq> lit ''sqlserver''"
    "lit ''name'' \<noteq> lit ''active''"
    by (simp_all add: lit_def)
  from PrepareArrayArgs_mutates_map[OF d, of CaseRanges_excerpt "lit ''oracle''" "lit ''active''"]
    PrepareArrayArgs_mutates_map[OF d, of CaseRanges_excerpt "lit ''oracle''" "lit ''name''"]
    PrepareArrayArgs_mutates_map[OF d, of CaseRanges_excerpt "lit ''postgres''" "lit ''active''"]
    d ne
  show ?thesis by simp
qed

end
